theory Spec2Isabelle
  imports Complex_Main "HOL-Library.Sublist" "HOL-Library.Multiset"
begin

section \<open>JavaScript strings and values\<close>

text \<open>
  The program is \<open>src/script.js\<close>; the line numbers below are lines of that file.
  A JavaScript string is modelled as a \<open>string\<close>, one \<open>char\<close> per UTF-16 code unit, so
  \<open>length\<close> is the \<open>.length\<close> of the source. The model covers the code units
  U+0000 to U+00FF. A JavaScript number is modelled as a \<open>real\<close>: no rounding, no NaN.
\<close>

text \<open>The characters matched by \<open>\s\<close> and removed by \<open>trim()\<close>, among U+0000 to U+00FF.\<close>

definition isWhiteSpace :: "char \<Rightarrow> bool" where
  "isWhiteSpace c \<longleftrightarrow>
     c = CHR 0x09 \<or> c = CHR 0x0A \<or> c = CHR 0x0B \<or> c = CHR 0x0C \<or> c = CHR 0x0D \<or>
     c = CHR 0x20 \<or> c = CHR 0xA0"

text \<open>\<open>String.prototype.trim\<close>.\<close>

definition trim :: "string \<Rightarrow> string" where
  "trim s = rev (dropWhile isWhiteSpace (rev (dropWhile isWhiteSpace s)))"

text \<open>\<open>String.prototype.includes\<close>: the argument occurs at some position.\<close>

fun includesStr :: "string \<Rightarrow> string \<Rightarrow> bool" where
  "includesStr [] sub = (sub = [])"
| "includesStr (c # cs) sub = (prefix sub (c # cs) \<or> includesStr cs sub)"

text \<open>\<open>String.prototype.startsWith\<close> and \<open>endsWith\<close>.\<close>

definition startsWith :: "string \<Rightarrow> string \<Rightarrow> bool" where
  "startsWith s p = prefix p s"

definition endsWith :: "string \<Rightarrow> string \<Rightarrow> bool" where
  "endsWith s p = suffix p s"

text \<open>
  The values \<open>JSON.parse\<close> and \<open>res.json()\<close> produce. An object keeps its members as
  written, in text order; \<open>undefined\<close> is the \<open>None\<close> of a property read.
\<close>

datatype jsval =
    JNull
  | JBool bool
  | JNum real
  | JStr string
  | JArr "jsval list"
  | JObj "(string \<times> jsval) list"

text \<open>ToBoolean, as used by \<open>!v\<close>, \<open>v || d\<close> and \<open>if (v)\<close>.\<close>

fun truthy :: "jsval \<Rightarrow> bool" where
  "truthy JNull = False"
| "truthy (JBool b) = b"
| "truthy (JNum n) = (n \<noteq> 0)"
| "truthy (JStr s) = (s \<noteq> [])"
| "truthy (JArr xs) = True"
| "truthy (JObj kvs) = True"

text \<open>
  The value of member \<open>k\<close> of a parsed object: with a repeated key the last member wins.
\<close>

definition member :: "(string \<times> jsval) list \<Rightarrow> string \<Rightarrow> jsval option" where
  "member kvs k = map_of (rev kvs) k"

text \<open>
  A property read \<open>v.k\<close> on a value other than \<open>null\<close>, for a name \<open>k\<close> that is neither
  an index nor a built-in property (\<open>results\<close>, \<open>compressed_prompt\<close>, \<open>page\<close>,
  \<open>text\<close>, the category names): only an object can have it.
\<close>

fun getProp :: "jsval \<Rightarrow> string \<Rightarrow> jsval option" where
  "getProp (JObj kvs) k = member kvs k"
| "getProp v k = None"

text \<open>
  \<open>r || d\<close> for a property read \<open>r\<close> that may be \<open>undefined\<close>: the value read when it is
  truthy, else \<open>d\<close>. The same serves for \<open>if (r) return r;\<close> followed by more code.
\<close>

definition orElse :: "jsval option \<Rightarrow> jsval \<Rightarrow> jsval" where
  "orElse r d = (case r of None \<Rightarrow> d | Some v \<Rightarrow> if truthy v then v else d)"

section \<open>Compression adapter: \<open>callScaleDown\<close> and the page loop of \<open>extractKnowledge\<close>\<close>

text \<open>\<open>callScaleDown\<close> is at lines 3060 to 3101, the page loop at lines 890 to 952.\<close>

text \<open>
  What \<open>fetch\<close> and \<open>res.json()\<close> give the adapter: the request is rejected (network
  failure), or a response arrives with a status and a body; the body is \<open>None\<close> when
  \<open>res.json()\<close> rejects it as malformed.
\<close>

datatype fetch_outcome =
    NetworkFailure
  | Response nat "jsval option"

record sd_request =
  req_context :: string
  req_prompt :: string
  req_model :: string
  req_rate :: real

text \<open>
  The external service: the outcome of the \<open>n\<close>-th request of a run. The list of requests
  sent so far is threaded through the calls, so "the service was not contacted" is
  "the list did not grow".
\<close>

type_synonym scaledown_service = "nat \<Rightarrow> sd_request \<Rightarrow> fetch_outcome"

definition res_ok :: "nat \<Rightarrow> bool" where
  "res_ok status \<longleftrightarrow> 200 \<le> status \<and> status \<le> 299"

text \<open>
  The part of \<open>callScaleDown\<close> after \<open>await res.json()\<close>:
  \<open>data.results?.compressed_prompt\<close>, then \<open>data.compressed_prompt\<close>, then the fixed
  string. \<open>data.results\<close> on \<open>null\<close> raises a TypeError, which the surrounding \<open>catch\<close>
  turns into the connection sentinel.
\<close>

definition pickCompressed :: "jsval \<Rightarrow> jsval" where
  "pickCompressed data =
     (if data = JNull then JStr ''ScaleDown Connection Failed''
      else
        let nested = (case getProp data ''results'' of
                        None \<Rightarrow> None
                      | Some JNull \<Rightarrow> None
                      | Some r \<Rightarrow> getProp r ''compressed_prompt'')
        in orElse nested
             (orElse (getProp data ''compressed_prompt'') (JStr ''No relevant summary found.'')))"

definition callScaleDown ::
  "string \<Rightarrow> scaledown_service \<Rightarrow> sd_request list \<Rightarrow> string \<Rightarrow> string \<Rightarrow> string \<Rightarrow> real
     \<Rightarrow> jsval \<times> sd_request list" where
  "callScaleDown apiKey fetch sent ctx prmpt mdl rt =
     (if apiKey = [] then (JStr ''Summarization unavailable'', sent)
      else
        let req = \<lparr>req_context = ctx, req_prompt = prmpt, req_model = mdl, req_rate = rt\<rparr>;
            sent' = sent @ [req]
        in case fetch (length sent) req of
             NetworkFailure \<Rightarrow> (JStr ''ScaleDown Connection Failed'', sent')
           | Response status body \<Rightarrow>
               if \<not> res_ok status then
                 (if status = 401 \<or> status = 403 then (JStr ''Invalid ScaleDown Key'', sent')
                  else (JStr ''ScaleDown Connection Failed'', sent'))
               else (case body of
                       None \<Rightarrow> (JStr ''ScaleDown Connection Failed'', sent')
                     | Some data \<Rightarrow> (pickCompressed data, sent')))"

record page_record =
  pageNum :: nat
  page_text :: string

record compressed_page =
  cp_page :: nat
  cp_text :: jsval

text \<open>
  The acceptance test of \<open>extractKnowledge\<close>:
  \<open>summary && summary.length > 10 && !summary.includes("unavailable") && !summary.includes("Invalid")\<close>.
  A number or boolean has no \<open>length\<close> (\<open>undefined > 10\<close> is false). An object is never
  accepted: either its \<open>length\<close> member is not above 10, or \<open>summary.includes\<close> is not a
  function and the TypeError reaches the \<open>catch\<close>, which stores the original text as the
  \<open>else\<close> branch does.
\<close>

fun accepted :: "jsval \<Rightarrow> bool" where
  "accepted (JStr s) =
     (s \<noteq> [] \<and> length s > 10 \<and> \<not> includesStr s ''unavailable'' \<and> \<not> includesStr s ''Invalid'')"
| "accepted (JArr xs) =
     (length xs > 10 \<and> JStr ''unavailable'' \<notin> set xs \<and> JStr ''Invalid'' \<notin> set xs)"
| "accepted v = False"

text \<open>
  One iteration of the \<open>for\<close> loop over the pages. The instruction text and the model name
  are fixed for a run and passed in; the rate is the literal 0.95.
\<close>

definition compressPage ::
  "string \<Rightarrow> scaledown_service \<Rightarrow> string \<Rightarrow> string
     \<Rightarrow> compressed_page list \<times> sd_request list \<Rightarrow> page_record
     \<Rightarrow> compressed_page list \<times> sd_request list" where
  "compressPage apiKey fetch prmpt mdl st page =
     (let compressedPages = fst st; sent = snd st in
      if length (page_text page) < 50 then
        (if length (trim (page_text page)) > 0
         then (compressedPages @ [\<lparr>cp_page = pageNum page, cp_text = JStr (page_text page)\<rparr>], sent)
         else (compressedPages, sent))
      else
        let (summary, sent') = callScaleDown apiKey fetch sent (page_text page) prmpt mdl (95 / 100)
        in if accepted summary
           then (compressedPages @ [\<lparr>cp_page = pageNum page, cp_text = summary\<rparr>], sent')
           else (compressedPages @ [\<lparr>cp_page = pageNum page, cp_text = JStr (page_text page)\<rparr>], sent'))"

text \<open>The whole loop, from an empty batch and no request sent.\<close>

definition compressPages ::
  "string \<Rightarrow> scaledown_service \<Rightarrow> string \<Rightarrow> string \<Rightarrow> page_record list
     \<Rightarrow> compressed_page list \<times> sd_request list" where
  "compressPages apiKey fetch prmpt mdl pages =
     foldl (compressPage apiKey fetch prmpt mdl) ([], []) pages"

section \<open>Text structurer: \<open>extractStructuredText\<close>\<close>

text \<open>\<open>extractStructuredText\<close> is at lines 666 to 731.\<close>

text \<open>
  A number of the program is a double. A finite double is held as the real it denotes, and
  the comparisons of doubles (\<open><\<close>, \<open>>\<close>, \<open>>=\<close>) are the comparisons of these reals;
  \<open>Math.abs\<close> is exact. The sum and the difference of two doubles are rounded, so they are
  not the sum and the difference of the reals: the two operations are the parameters
  \<open>fadd\<close> and \<open>fsub\<close> of the definitions that compute with coordinates. A property is proved
  for every pair of operations, or for every subtraction that has the properties of the
  subtraction of doubles which the proof uses (\<open>roundedSubtraction\<close> below). Not-a-number
  and the infinities are not represented.
\<close>

type_synonym float_op = "real \<Rightarrow> real \<Rightarrow> real"

text \<open>
  A text content item as the PDF parser hands it over. \<open>str\<close> is \<open>None\<close> when the item
  has no string (marked-content items). Of \<open>item.transform\<close> only elements 4 and 5 are
  read (\<open>translateX\<close>, \<open>translateY\<close>); \<open>None\<close> is a missing transform. \<open>None\<close> is a
  missing width.
\<close>

record text_item =
  str :: "string option"
  translate :: "(real \<times> real) option"
  width :: "real option"

record row_item =
  it_x :: real
  it_text :: string
  it_width :: real

record row =
  row_y :: real
  row_items :: "row_item list"

definition rowTolerance :: real where
  "rowTolerance = 8"

text \<open>
  \<open>rows.find((row) => Math.abs(row.y - y) < rowTolerance)\<close>, followed by the push onto
  the row found or the push of a new row at the end.
\<close>

fun addToRow :: "float_op \<Rightarrow> real \<Rightarrow> row_item \<Rightarrow> row list \<Rightarrow> row list" where
  "addToRow fsub y it [] = [\<lparr>row_y = y, row_items = [it]\<rparr>]"
| "addToRow fsub y it (r # rs) =
     (if \<bar>fsub (row_y r) y\<bar> < rowTolerance
      then r\<lparr>row_items := row_items r @ [it]\<rparr> # rs
      else r # addToRow fsub y it rs)"

text \<open>The body of \<open>items.forEach\<close>: an item with no or an empty string is skipped.\<close>

definition placeItem :: "float_op \<Rightarrow> real \<Rightarrow> row list \<Rightarrow> text_item \<Rightarrow> row list" where
  "placeItem fsub height rows item =
     (case str item of
        None \<Rightarrow> rows
      | Some txt \<Rightarrow>
          if length txt = 0 then rows
          else
            let x = (case translate item of None \<Rightarrow> 0 | Some t \<Rightarrow> fst t);
                y = (case translate item of None \<Rightarrow> 0 | Some t \<Rightarrow> fsub height (snd t))
            in addToRow fsub y
                 \<lparr>it_x = x, it_text = txt,
                  it_width = (case width item of None \<Rightarrow> 0 | Some w \<Rightarrow> w)\<rparr> rows)"

text \<open>
  The body of \<open>row.items.forEach\<close> in the line builder, on the triple
  \<open>(lineItems, lastX, lastWidth)\<close>. The product \<open>item.text.length * 5\<close> is a product of
  integers far below \<open>2^53\<close>, which doubles compute exactly.
\<close>

definition pushItem ::
  "float_op \<Rightarrow> float_op \<Rightarrow> string list \<times> real \<times> real \<Rightarrow> row_item \<Rightarrow> string list \<times> real \<times> real" where
  "pushItem fadd fsub st item =
     (let lineItems = fst st; lastX = fst (snd st); lastWidth = snd (snd st);
          lineItems' =
            (if lastX \<ge> 0 then
               (let gap = fsub (it_x item) (fadd lastX lastWidth) in
                if gap > 15 then lineItems @ ['' | '']
                else if gap > 2 then lineItems @ ['' '']
                else lineItems)
             else lineItems)
      in (lineItems' @ [it_text item], it_x item,
          (if it_width item \<noteq> 0 then it_width item else real (length (it_text item)) * 5)))"

text \<open>The strings pushed for one row, before \<open>join("")\<close>.\<close>

definition lineItemsOf :: "float_op \<Rightarrow> float_op \<Rightarrow> row_item list \<Rightarrow> string list" where
  "lineItemsOf fadd fsub its = fst (foldl (pushItem fadd fsub) ([], - 1, 0) its)"

definition buildLine :: "float_op \<Rightarrow> float_op \<Rightarrow> row \<Rightarrow> string" where
  "buildLine fadd fsub r = trim (concat (lineItemsOf fadd fsub (row_items r)))"

text \<open>\<open>s.replace(/\s+/g, " ")\<close>: every maximal run of white space becomes one space.\<close>

function collapseSpaces :: "string \<Rightarrow> string" where
  "collapseSpaces [] = []"
| "collapseSpaces (c # cs) =
     (if isWhiteSpace c then CHR 0x20 # collapseSpaces (dropWhile isWhiteSpace cs)
      else c # collapseSpaces cs)"
  by pat_completeness auto
termination
  by (relation "measure length") (auto simp: length_dropWhile_le less_Suc_eq_le)

text \<open>\<open>Array.prototype.join\<close> on strings.\<close>

fun joinWith :: "string \<Rightarrow> string list \<Rightarrow> string" where
  "joinWith sep [] = []"
| "joinWith sep [s] = s"
| "joinWith sep (s # t # ss) = s @ sep @ joinWith sep (t # ss)"

text \<open>
  \<open>Array.prototype.sort\<close> with a comparator: the sort is stable, and an element \<open>a\<close>
  goes before \<open>b\<close> when the comparator's value on them is negative, behind when it is
  positive. With a comparator that is consistent the result is the one of the insertion sort
  \<open>sortBy\<close>, which puts an element before the first element of the sorted rest that it is
  not to go behind. The comparators are \<open>(a, b) => a.y - b.y\<close> and \<open>(a, b) => a.x - b.x\<close>.
\<close>

fun insertBy :: "('a \<Rightarrow> 'a \<Rightarrow> real) \<Rightarrow> 'a \<Rightarrow> 'a list \<Rightarrow> 'a list" where
  "insertBy cmp x [] = [x]"
| "insertBy cmp x (y # ys) = (if cmp x y \<le> 0 then x # y # ys else y # insertBy cmp x ys)"

definition sortBy :: "('a \<Rightarrow> 'a \<Rightarrow> real) \<Rightarrow> 'a list \<Rightarrow> 'a list" where
  "sortBy cmp xs = foldr (insertBy cmp) xs []"

definition extractStructuredText :: "float_op \<Rightarrow> float_op \<Rightarrow> text_item list \<Rightarrow> real \<Rightarrow> string" where
  "extractStructuredText fadd fsub items height =
     (if length items = 0 then []
      else
        let rows = foldl (placeItem fsub height) [] items;
            rows1 = sortBy (\<lambda>a b. fsub (row_y a) (row_y b)) rows;
            rows2 = map (\<lambda>r. r\<lparr>row_items := sortBy (\<lambda>a b. fsub (it_x a) (it_x b)) (row_items r)\<rparr>) rows1;
            lines = map (buildLine fadd fsub) rows2
        in joinWith [CHR 0x0A]
             (map (\<lambda>line. trim (collapseSpaces line)) (filter (\<lambda>line. length line > 0) lines)))"

section \<open>Strings of values: \<open>toLowerCase\<close>, \<open>String(v)\<close>, \<open>join\<close>, \<open>JSON.stringify\<close>\<close>

text \<open>
  \<open>String.prototype.toLowerCase\<close> on U+0000 to U+00FF: the letters A to Z and the
  capital letters U+00C0 to U+00DE (U+00D7, the multiplication sign, is not one) move up
  by 32.
\<close>

definition toLowerChar :: "char \<Rightarrow> char" where
  "toLowerChar c =
     (let n = (of_char c :: nat) in
      if (65 \<le> n \<and> n \<le> 90) \<or> (192 \<le> n \<and> n \<le> 222 \<and> n \<noteq> 215)
      then char_of (n + 32) else c)"

definition toLowerCase :: "string \<Rightarrow> string" where
  "toLowerCase s = map toLowerChar s"

definition digitChar :: "nat \<Rightarrow> char" where
  "digitChar d = ''0123456789abcdef'' ! d"

function natToString :: "nat \<Rightarrow> string" where
  "natToString n =
     (if n < 10 then [digitChar n] else natToString (n div 10) @ [digitChar (n mod 10)])"
  by pat_completeness auto
termination
  by (relation "measure id") auto

declare natToString.simps [simp del]

fun fracDigits :: "nat \<Rightarrow> real \<Rightarrow> string" where
  "fracDigits 0 f = []"
| "fracDigits (Suc k) f =
     (if f = 0 then []
      else digitChar (nat \<lfloor>f * 10\<rfloor>) # fracDigits k (f * 10 - of_int \<lfloor>f * 10\<rfloor>))"

text \<open>
  \<open>Number.prototype.toString\<close>, idealised: an integer is written in decimal, as the source
  does for every page number; another number is written with its decimal places, at most
  20 of them. The exponent notation of very large and very small numbers is not modelled.
\<close>

definition Number_toString :: "real \<Rightarrow> string" where
  "Number_toString r =
     (let a = \<bar>r\<bar>; f = a - of_int \<lfloor>a\<rfloor> in
      (if r < 0 then ''-'' else []) @ natToString (nat \<lfloor>a\<rfloor>) @
      (if f = 0 then [] else ''.'' @ fracDigits 20 f))"

text \<open>
  The string of a value inside a template literal, and \<open>Array.prototype.join\<close>, which
  writes \<open>null\<close> as the empty string.
\<close>

fun toStringJS :: "jsval \<Rightarrow> string" where
  "toStringJS JNull = ''null''"
| "toStringJS (JBool b) = (if b then ''true'' else ''false'')"
| "toStringJS (JNum n) = Number_toString n"
| "toStringJS (JStr s) = s"
| "toStringJS (JArr xs) = joinWith '','' (map (\<lambda>v. if v = JNull then [] else toStringJS v) xs)"
| "toStringJS (JObj kvs) = ''[object Object]''"

definition arrayJoin :: "string \<Rightarrow> jsval list \<Rightarrow> string" where
  "arrayJoin sep xs = joinWith sep (map (\<lambda>v. if v = JNull then [] else toStringJS v) xs)"

text \<open>
  The own properties of a parsed object in enumeration order: each key once, at its first
  position, with the value of its last member; keys that are array indices come first, in
  ascending order.
\<close>

definition isDigit :: "char \<Rightarrow> bool" where
  "isDigit c \<longleftrightarrow> c \<in> set ''0123456789''"

definition digitVal :: "char \<Rightarrow> nat" where
  "digitVal c = of_char c - 48"

definition digitsToNat :: "string \<Rightarrow> nat" where
  "digitsToNat s = foldl (\<lambda>a c. 10 * a + digitVal c) 0 s"

definition isArrayIndex :: "string \<Rightarrow> bool" where
  "isArrayIndex k \<longleftrightarrow>
     k \<noteq> [] \<and> list_all isDigit k \<and> (k = ''0'' \<or> hd k \<noteq> CHR ''0'') \<and> digitsToNat k < 2 ^ 32 - 1"

definition ownKeys :: "string list \<Rightarrow> string list" where
  "ownKeys ks =
     (let firsts = rev (remdups (rev ks))
      in sort_key digitsToNat (filter isArrayIndex firsts) @ filter (\<lambda>k. \<not> isArrayIndex k) firsts)"

definition ownEntries :: "(string \<times> 'a) list \<Rightarrow> (string \<times> 'a) list" where
  "ownEntries kvs =
     List.map_filter (\<lambda>k. map_option (Pair k) (map_of (rev kvs) k)) (ownKeys (map fst kvs))"

text \<open>\<open>Object.entries(v)\<close> for a value other than \<open>null\<close>.\<close>

fun entries :: "jsval \<Rightarrow> (string \<times> jsval) list" where
  "entries (JObj kvs) = ownEntries kvs"
| "entries (JArr xs) = zip (map natToString [0..<length xs]) xs"
| "entries (JStr s) = zip (map natToString [0..<length s]) (map (\<lambda>c. JStr [c]) s)"
| "entries v = []"

text \<open>\<open>JSON.stringify(v)\<close> with one argument.\<close>

definition quoteChar :: "char \<Rightarrow> string" where
  "quoteChar c =
     (if c = CHR 0x22 then [CHR 0x5C, CHR 0x22]
      else if c = CHR 0x5C then [CHR 0x5C, CHR 0x5C]
      else if c = CHR 0x08 then [CHR 0x5C, CHR ''b'']
      else if c = CHR 0x0C then [CHR 0x5C, CHR ''f'']
      else if c = CHR 0x0A then [CHR 0x5C, CHR ''n'']
      else if c = CHR 0x0D then [CHR 0x5C, CHR ''r'']
      else if c = CHR 0x09 then [CHR 0x5C, CHR ''t'']
      else if (of_char c :: nat) < 32
        then [CHR 0x5C, CHR ''u'', CHR ''0'', CHR ''0'',
              digitChar (of_char c div 16), digitChar (of_char c mod 16)]
      else [c])"

definition quoteJSON :: "string \<Rightarrow> string" where
  "quoteJSON s = [CHR 0x22] @ concat (map quoteChar s) @ [CHR 0x22]"

fun JSON_stringify :: "jsval \<Rightarrow> string" where
  "JSON_stringify JNull = ''null''"
| "JSON_stringify (JBool b) = (if b then ''true'' else ''false'')"
| "JSON_stringify (JNum n) = Number_toString n"
| "JSON_stringify (JStr s) = quoteJSON s"
| "JSON_stringify (JArr xs) = ''['' @ joinWith '','' (map JSON_stringify xs) @ '']''"
| "JSON_stringify (JObj kvs) =
     ''{'' @ joinWith '',''
       (map (\<lambda>kv. quoteJSON (fst kv) @ '':'' @ snd kv)
            (ownEntries (map (\<lambda>kv. (fst kv, JSON_stringify (snd kv))) kvs))) @ ''}''"

section \<open>\<open>JSON.parse\<close>\<close>

text \<open>
  \<open>JSON.parse\<close> belongs to the runtime, not to the program; \<open>parseJSONFromResponse\<close>
  is built on it, so it is modelled here.
\<close>

text \<open>
  What the source can raise: the TypeError and SyntaxError of the runtime, the two errors
  \<open>parseJSONFromResponse\<close> throws, and the errors of the calls to the language model.
\<close>

datatype error =
    TypeError
  | SyntaxError
  | NoValidJSONObject
  | CouldNotParseJSON
  | GeminiError

text \<open>
  The JSON grammar, read in two passes of one step per input symbol: a lexer over the
  characters and a parser over the tokens that keeps the open arrays and objects on a
  stack. An escape above \<open>\u00ff\<close> denotes a code unit outside the model and is refused.
\<close>

datatype token =
    TLBrace | TRBrace | TLBracket | TRBracket | TColon | TComma
  | TStr string | TNum real | TTrue | TFalse | TNull

definition isJsonSpace :: "char \<Rightarrow> bool" where
  "isJsonSpace c \<longleftrightarrow> c = CHR 0x20 \<or> c = CHR 0x09 \<or> c = CHR 0x0A \<or> c = CHR 0x0D"

definition isLower :: "char \<Rightarrow> bool" where
  "isLower c \<longleftrightarrow> c \<in> set ''abcdefghijklmnopqrstuvwxyz''"

definition isHexDigit :: "char \<Rightarrow> bool" where
  "isHexDigit c \<longleftrightarrow> c \<in> set ''0123456789abcdefABCDEF''"

definition hexVal :: "char \<Rightarrow> nat" where
  "hexVal c =
     (if isDigit c then of_char c - 48
      else if c \<in> set ''abcdef'' then of_char c - 87
      else of_char c - 55)"

definition hexToNat :: "string \<Rightarrow> nat" where
  "hexToNat s = foldl (\<lambda>a c. 16 * a + hexVal c) 0 s"

definition isNumberChar :: "char \<Rightarrow> bool" where
  "isNumberChar c \<longleftrightarrow> isDigit c \<or> c \<in> set ''+-.eE''"

text \<open>
  A number literal: \<open>-? (0 | [1-9][0-9]*) (. [0-9]+)? ([eE] [+-]? [0-9]+)?\<close>, and its
  value.
\<close>

definition parseNumber :: "string \<Rightarrow> real option" where
  "parseNumber s =
     (let neg = (s \<noteq> [] \<and> hd s = CHR ''-'');
          s1 = (if neg then tl s else s);
          ip = takeWhile isDigit s1;
          s2 = dropWhile isDigit s1;
          hasFrac = (s2 \<noteq> [] \<and> hd s2 = CHR ''.'');
          fp = (if hasFrac then takeWhile isDigit (tl s2) else []);
          s3 = (if hasFrac then dropWhile isDigit (tl s2) else s2);
          hasExp = (s3 \<noteq> [] \<and> (hd s3 = CHR ''e'' \<or> hd s3 = CHR ''E''));
          s4 = (if hasExp then tl s3 else s3);
          eneg = (hasExp \<and> s4 \<noteq> [] \<and> hd s4 = CHR ''-'');
          s5 = (if hasExp \<and> s4 \<noteq> [] \<and> (hd s4 = CHR ''-'' \<or> hd s4 = CHR ''+'') then tl s4 else s4);
          ep = (if hasExp then takeWhile isDigit s5 else []);
          s6 = (if hasExp then dropWhile isDigit s5 else s5)
      in if ip = [] \<or> (length ip > 1 \<and> hd ip = CHR ''0'') \<or> (hasFrac \<and> fp = []) \<or>
            (hasExp \<and> ep = []) \<or> s6 \<noteq> []
         then None
         else
           let m = real (digitsToNat ip) + real (digitsToNat fp) / 10 ^ length fp;
               v = (if eneg then m / 10 ^ digitsToNat ep else m * 10 ^ digitsToNat ep)
           in Some (if neg then - v else v))"

definition wordToken :: "string \<Rightarrow> token option" where
  "wordToken w =
     (if w = ''true'' then Some TTrue
      else if w = ''false'' then Some TFalse
      else if w = ''null'' then Some TNull
      else None)"

datatype lexmode =
    LNormal
  | LString string
  | LEscape string
  | LUnicode string string
  | LNumber string
  | LWord string

text \<open>The first character of a token, or white space between tokens.\<close>

definition startToken :: "token list \<Rightarrow> char \<Rightarrow> (lexmode \<times> token list) option" where
  "startToken toks c =
     (if isJsonSpace c then Some (LNormal, toks)
      else if c = CHR ''{'' then Some (LNormal, toks @ [TLBrace])
      else if c = CHR ''}'' then Some (LNormal, toks @ [TRBrace])
      else if c = CHR ''['' then Some (LNormal, toks @ [TLBracket])
      else if c = CHR '']'' then Some (LNormal, toks @ [TRBracket])
      else if c = CHR '':'' then Some (LNormal, toks @ [TColon])
      else if c = CHR '','' then Some (LNormal, toks @ [TComma])
      else if c = CHR 0x22 then Some (LString [], toks)
      else if c = CHR ''-'' \<or> isDigit c then Some (LNumber [c], toks)
      else if isLower c then Some (LWord [c], toks)
      else None)"

fun lexChar :: "lexmode \<times> token list \<Rightarrow> char \<Rightarrow> (lexmode \<times> token list) option" where
  "lexChar (LNormal, toks) c = startToken toks c"
| "lexChar (LString acc, toks) c =
     (if c = CHR 0x22 then Some (LNormal, toks @ [TStr acc])
      else if c = CHR 0x5C then Some (LEscape acc, toks)
      else if (of_char c :: nat) < 32 then None
      else Some (LString (acc @ [c]), toks))"
| "lexChar (LEscape acc, toks) c =
     (if c = CHR 0x22 \<or> c = CHR 0x5C \<or> c = CHR ''/'' then Some (LString (acc @ [c]), toks)
      else if c = CHR ''b'' then Some (LString (acc @ [CHR 0x08]), toks)
      else if c = CHR ''f'' then Some (LString (acc @ [CHR 0x0C]), toks)
      else if c = CHR ''n'' then Some (LString (acc @ [CHR 0x0A]), toks)
      else if c = CHR ''r'' then Some (LString (acc @ [CHR 0x0D]), toks)
      else if c = CHR ''t'' then Some (LString (acc @ [CHR 0x09]), toks)
      else if c = CHR ''u'' then Some (LUnicode acc [], toks)
      else None)"
| "lexChar (LUnicode acc hs, toks) c =
     (if \<not> isHexDigit c then None
      else if length hs < 3 then Some (LUnicode acc (hs @ [c]), toks)
      else if hexToNat (hs @ [c]) < 256 then Some (LString (acc @ [char_of (hexToNat (hs @ [c]))]), toks)
      else None)"
| "lexChar (LNumber acc, toks) c =
     (if isNumberChar c then Some (LNumber (acc @ [c]), toks)
      else (case parseNumber acc of
              None \<Rightarrow> None
            | Some r \<Rightarrow> startToken (toks @ [TNum r]) c))"
| "lexChar (LWord acc, toks) c =
     (if isLower c then Some (LWord (acc @ [c]), toks)
      else (case wordToken acc of
              None \<Rightarrow> None
            | Some t \<Rightarrow> startToken (toks @ [t]) c))"

fun lexEnd :: "lexmode \<times> token list \<Rightarrow> token list option" where
  "lexEnd (LNormal, toks) = Some toks"
| "lexEnd (LNumber acc, toks) = map_option (\<lambda>r. toks @ [TNum r]) (parseNumber acc)"
| "lexEnd (LWord acc, toks) = map_option (\<lambda>t. toks @ [t]) (wordToken acc)"
| "lexEnd (m, toks) = None"

fun lexFrom :: "lexmode \<times> token list \<Rightarrow> string \<Rightarrow> token list option" where
  "lexFrom st [] = lexEnd st"
| "lexFrom st (c # cs) = (case lexChar st c of None \<Rightarrow> None | Some st' \<Rightarrow> lexFrom st' cs)"

datatype frame =
    FArr "jsval list"
  | FObj "(string \<times> jsval) list"
  | FKey string

datatype expect =
    ExpValue | ExpValueOrClose | ExpKeyOrClose | ExpKey | ExpColon | ExpCommaOrClose | ExpEnd

type_synonym parse_state = "expect \<times> frame list \<times> jsval option"

text \<open>A finished value goes to the innermost open array or object, or is the result.\<close>

fun deliver :: "jsval \<Rightarrow> frame list \<Rightarrow> parse_state option" where
  "deliver v [] = Some (ExpEnd, [], Some v)"
| "deliver v (FArr xs # st) = Some (ExpCommaOrClose, FArr (xs @ [v]) # st, None)"
| "deliver v (FKey k # FObj ms # st) = Some (ExpCommaOrClose, FObj (ms @ [(k, v)]) # st, None)"
| "deliver v st = None"

fun scalar :: "token \<Rightarrow> jsval option" where
  "scalar (TStr s) = Some (JStr s)"
| "scalar (TNum r) = Some (JNum r)"
| "scalar TTrue = Some (JBool True)"
| "scalar TFalse = Some (JBool False)"
| "scalar TNull = Some JNull"
| "scalar t = None"

definition closeArray :: "frame list \<Rightarrow> parse_state option" where
  "closeArray st = (case st of FArr xs # r \<Rightarrow> deliver (JArr xs) r | _ \<Rightarrow> None)"

definition closeObject :: "frame list \<Rightarrow> parse_state option" where
  "closeObject st = (case st of FObj ms # r \<Rightarrow> deliver (JObj ms) r | _ \<Rightarrow> None)"

fun parseToken :: "parse_state \<Rightarrow> token \<Rightarrow> parse_state option" where
  "parseToken (e, st, res) t =
     (if e = ExpValue \<or> e = ExpValueOrClose then
        (case t of
           TLBracket \<Rightarrow> Some (ExpValueOrClose, FArr [] # st, None)
         | TLBrace \<Rightarrow> Some (ExpKeyOrClose, FObj [] # st, None)
         | TRBracket \<Rightarrow> (if e = ExpValueOrClose then closeArray st else None)
         | _ \<Rightarrow> (case scalar t of Some v \<Rightarrow> deliver v st | None \<Rightarrow> None))
      else if e = ExpKeyOrClose \<or> e = ExpKey then
        (case t of
           TStr k \<Rightarrow> Some (ExpColon, FKey k # st, None)
         | TRBrace \<Rightarrow> (if e = ExpKeyOrClose then closeObject st else None)
         | _ \<Rightarrow> None)
      else if e = ExpColon then
        (case t of TColon \<Rightarrow> Some (ExpValue, st, None) | _ \<Rightarrow> None)
      else if e = ExpCommaOrClose then
        (case t of
           TComma \<Rightarrow> (case st of
                        FArr xs # r \<Rightarrow> Some (ExpValue, st, None)
                      | FObj ms # r \<Rightarrow> Some (ExpKey, st, None)
                      | _ \<Rightarrow> None)
         | TRBracket \<Rightarrow> closeArray st
         | TRBrace \<Rightarrow> closeObject st
         | _ \<Rightarrow> None)
      else None)"

fun parseTokens :: "parse_state \<Rightarrow> token list \<Rightarrow> parse_state option" where
  "parseTokens ps [] = Some ps"
| "parseTokens ps (t # ts) = (case parseToken ps t of None \<Rightarrow> None | Some ps' \<Rightarrow> parseTokens ps' ts)"

definition JSON_parse :: "string \<Rightarrow> error + jsval" where
  "JSON_parse txt =
     (case lexFrom (LNormal, []) txt of
        None \<Rightarrow> Inl SyntaxError
      | Some toks \<Rightarrow>
          (case parseTokens (ExpValue, [], None) toks of
             Some (ExpEnd, [], Some v) \<Rightarrow> Inr v
           | _ \<Rightarrow> Inl SyntaxError))"

section \<open>\<open>parseJSONFromResponse\<close>\<close>

text \<open>\<open>parseJSONFromResponse\<close> is at lines 1772 to 1824.\<close>

fun indexOf :: "string \<Rightarrow> char \<Rightarrow> nat option" where
  "indexOf [] c = None"
| "indexOf (d # ds) c = (if d = c then Some 0 else map_option Suc (indexOf ds c))"

definition lastIndexOf :: "string \<Rightarrow> char \<Rightarrow> nat option" where
  "lastIndexOf s c = map_option (\<lambda>i. length s - 1 - i) (indexOf (rev s) c)"

text \<open>\<open>s.substring(a, b)\<close> for \<open>a \<le> b\<close>.\<close>

definition substring :: "string \<Rightarrow> nat \<Rightarrow> nat \<Rightarrow> string" where
  "substring s a b = take (b - a) (drop a s)"

text \<open>The cleaning at the head of the function: trim, drop the code fences, trim.\<close>

definition stripFences :: "string \<Rightarrow> string" where
  "stripFences response =
     (let cleaned = trim response;
          cleaned1 = (if startsWith cleaned ''```json'' then drop 7 cleaned
                      else if startsWith cleaned ''```'' then drop 3 cleaned
                      else cleaned);
          cleaned2 = (if endsWith cleaned1 ''```'' then take (length cleaned1 - 3) cleaned1
                      else cleaned1)
      in trim cleaned2)"

text \<open>
  The lookbehind \<open>(?<=":.*"[^"]*)\<close> at a position with the text \<open>pre\<close> before it. The
  quote before \<open>[^"]*\<close> is the last quote of \<open>pre\<close>; \<open>":\<close> and the \<open>.*\<close> after it lie
  before that quote with no line terminator up to it, so \<open>":\<close> occurs on the last line of
  the text before the last quote.
\<close>

definition isLineTerminator :: "char \<Rightarrow> bool" where
  "isLineTerminator c \<longleftrightarrow> c = CHR 0x0A \<or> c = CHR 0x0D"

definition newlineLookbehind :: "string \<Rightarrow> bool" where
  "newlineLookbehind pre =
     (CHR 0x22 \<in> set pre \<and>
      (let beforeQuote = rev (tl (dropWhile (\<lambda>c. c \<noteq> CHR 0x22) (rev pre)));
           lastLine = rev (takeWhile (\<lambda>c. \<not> isLineTerminator c) (rev beforeQuote))
       in includesStr lastLine [CHR 0x22, CHR '':'']))"

text \<open>
  \<open>jsonStr.replace(/(?<=":.*"[^"]*)\n(?=[^"]*")/g, "\\n")\<close>: a line feed with the
  lookbehind before it and a quote somewhere after it becomes a backslash and \<open>n\<close>.
\<close>

fun fixNewlines :: "string \<Rightarrow> string \<Rightarrow> string" where
  "fixNewlines pre [] = []"
| "fixNewlines pre (c # cs) =
     (if c = CHR 0x0A \<and> newlineLookbehind pre \<and> CHR 0x22 \<in> set cs
      then [CHR 0x5C, CHR ''n''] else [c]) @ fixNewlines (pre @ [c]) cs"

text \<open>
  \<open>jsonStr.replace(/,(\s*[}\]])/g, "$1")\<close>: a comma followed by white space and a closing
  brace or bracket is removed.
\<close>

fun fixTrailingCommas :: "string \<Rightarrow> string" where
  "fixTrailingCommas [] = []"
| "fixTrailingCommas (c # cs) =
     (if c = CHR '','' \<and>
         (case dropWhile isWhiteSpace cs of [] \<Rightarrow> False | d # ds \<Rightarrow> d = CHR ''}'' \<or> d = CHR '']'')
      then fixTrailingCommas cs
      else c # fixTrailingCommas cs)"

text \<open>\<open>jsonStr.replace(/'/g, '"')\<close>.\<close>

definition fixQuotes :: "string \<Rightarrow> string" where
  "fixQuotes s = map (\<lambda>c. if c = CHR 0x27 then CHR 0x22 else c) s"

definition parseJSONFromResponse :: "string \<Rightarrow> error + jsval" where
  "parseJSONFromResponse response =
     (let cleaned = stripFences response in
      case JSON_parse cleaned of
        Inr v \<Rightarrow> Inr v
      | Inl e1 \<Rightarrow>
          (case (indexOf cleaned (CHR ''{''), lastIndexOf cleaned (CHR ''}'')) of
             (Some firstBrace, Some lastBrace) \<Rightarrow>
               if lastBrace \<le> firstBrace then Inl NoValidJSONObject
               else
                 let jsonStr = substring cleaned firstBrace (lastBrace + 1) in
                 (case JSON_parse jsonStr of
                    Inr v \<Rightarrow> Inr v
                  | Inl e2 \<Rightarrow>
                      (case JSON_parse (fixQuotes (fixTrailingCommas (fixNewlines [] jsonStr))) of
                         Inr v \<Rightarrow> Inr v
                       | Inl e3 \<Rightarrow> Inl CouldNotParseJSON))
           | _ \<Rightarrow> Inl NoValidJSONObject))"

section \<open>Categorization normalizer: \<open>processStructuredKnowledge\<close>\<close>

text \<open>
  \<open>processStructuredKnowledge\<close> is at lines 1063 to 1133, \<open>CATEGORIES\<close> at lines 129
  to 172.
\<close>

datatype category = Safety | Parts | Warranty | Procedures | Errors | Video

text \<open>\<open>Object.keys(CATEGORIES)\<close>, in the order of the object literal.\<close>

definition CATEGORIES :: "category list" where
  "CATEGORIES = [Safety, Parts, Warranty, Procedures, Errors, Video]"

fun categoryKey :: "category \<Rightarrow> string" where
  "categoryKey Safety = ''safety''"
| "categoryKey Parts = ''parts''"
| "categoryKey Warranty = ''warranty''"
| "categoryKey Procedures = ''procedures''"
| "categoryKey Errors = ''errors''"
| "categoryKey Video = ''video''"

text \<open>
  A stored item. \<open>page\<close> is whatever the response holds under \<open>page\<close> when that is truthy,
  else the number 0.
\<close>

record knowledge_item =
  ki_page :: jsval
  ki_text :: string

text \<open>
  \<open>state.knowledgeBuckets\<close>: the keys in insertion order, each with its items.
  \<open>buckets[key] = items\<close> is \<open>setBucket\<close>; \<open>buckets[key]\<close> is \<open>map_of\<close>;
  \<open>Object.values(buckets)\<close> is \<open>map snd\<close>.
\<close>

type_synonym buckets = "(category \<times> knowledge_item list) list"

fun setBucket :: "buckets \<Rightarrow> category \<Rightarrow> knowledge_item list \<Rightarrow> buckets" where
  "setBucket [] key items = [(key, items)]"
| "setBucket ((k, v) # b) key items =
     (if k = key then (k, items) # b else (k, v) # setBucket b key items)"

text \<open>\<open>t.replace(/\s+/g, " ").trim()\<close>.\<close>

definition cleanText :: "string \<Rightarrow> string" where
  "cleanText t = trim (collapseSpaces t)"

definition isPlaceholderText :: "string \<Rightarrow> bool" where
  "isPlaceholderText t =
     (if t = [] then True
      else
        let cleaned = cleanText t in
        if cleaned = [] then True
        else
          let lc = toLowerCase cleaned in
          if lc = ''none'' \<or> lc = ''n/a'' \<or> lc = ''na'' \<or> lc = ''-'' then True
          else if startsWith lc ''no '' \<or> startsWith lc ''none '' \<or> startsWith lc ''please visit''
            then True
          else if length cleaned < 3 then True
          else False)"

text \<open>
  The body of \<open>Object.entries(i).forEach\<close>: what one entry pushes onto \<open>parts\<close>. A string
  counts when it is not blank, an array when it is not empty; an empty array and an object
  go through \<open>JSON.stringify\<close>; a number, a boolean and \<open>null\<close> push nothing.
\<close>

definition partOf :: "string \<times> jsval \<Rightarrow> string list" where
  "partOf kv =
     (let k = fst kv; v = snd kv in
      if k = ''page'' then []
      else (case v of
              JStr s \<Rightarrow> if length (trim s) > 0 then [k @ '': '' @ s] else []
            | JArr xs \<Rightarrow> if length xs > 0 then [k @ '': '' @ arrayJoin '', '' xs]
                         else [k @ '': '' @ JSON_stringify v]
            | JObj ms \<Rightarrow> [k @ '': '' @ JSON_stringify v]
            | _ \<Rightarrow> []))"

text \<open>The text of an item other than \<open>null\<close>.\<close>

definition itemText :: "jsval \<Rightarrow> string" where
  "itemText i =
     (case getProp i ''text'' of
        Some (JStr s) \<Rightarrow> s
      | _ \<Rightarrow> joinWith '' | '' (concat (map partOf (entries i))))"

text \<open>
  The body of \<open>items.forEach\<close>. \<open>i.page\<close> on \<open>null\<close> raises a TypeError. The result is the
  item to push, or \<open>None\<close> for a placeholder.
\<close>

definition normalizeItem :: "jsval \<Rightarrow> error + knowledge_item option" where
  "normalizeItem i =
     (if i = JNull then Inl TypeError
      else
        let page = orElse (getProp i ''page'') (JNum 0);
            cleaned = cleanText (itemText i)
        in if \<not> isPlaceholderText cleaned
           then Inr (Some \<lparr>ki_page = page, ki_text = cleaned\<rparr>)
           else Inr None)"

fun normalizeItems :: "knowledge_item list \<Rightarrow> jsval list \<Rightarrow> error + knowledge_item list" where
  "normalizeItems normalized [] = Inr normalized"
| "normalizeItems normalized (i # rest) =
     (case normalizeItem i of
        Inl e \<Rightarrow> Inl e
      | Inr None \<Rightarrow> normalizeItems normalized rest
      | Inr (Some item) \<Rightarrow> normalizeItems (normalized @ [item]) rest)"

text \<open>
  The body of \<open>Object.keys(CATEGORIES).forEach\<close>, on the buckets built so far; the second
  component is the error raised, if any. \<open>data[key]\<close> on \<open>null\<close> raises. With
  \<open>items = data[key] || []\<close>: an empty array, or an object whose \<open>length\<close> is the number 0,
  returns early; a string, a number, \<open>true\<close> or another object has no \<open>forEach\<close>, and the
  call raises a TypeError.
\<close>

definition processCategory :: "jsval \<Rightarrow> buckets \<Rightarrow> category \<Rightarrow> buckets \<times> error option" where
  "processCategory data b key =
     (if data = JNull then (b, Some TypeError)
      else (case orElse (getProp data (categoryKey key)) (JArr []) of
              JArr xs \<Rightarrow>
                if length xs = 0 then (b, None)
                else (case normalizeItems [] xs of
                        Inl e \<Rightarrow> (b, Some e)
                      | Inr normalized \<Rightarrow>
                          if length normalized > 0 then (setBucket b key normalized, None)
                          else (b, None))
            | JObj ms \<Rightarrow>
                if member ms ''length'' = Some (JNum 0) then (b, None) else (b, Some TypeError)
            | JStr s \<Rightarrow> if length s = 0 then (b, None) else (b, Some TypeError)
            | _ \<Rightarrow> (b, Some TypeError)))"

fun processCategories :: "jsval \<Rightarrow> buckets \<Rightarrow> category list \<Rightarrow> buckets \<times> error option" where
  "processCategories data b [] = (b, None)"
| "processCategories data b (key # keys) =
     (case processCategory data b key of
        (b', Some e) \<Rightarrow> (b', Some e)
      | (b', None) \<Rightarrow> processCategories data b' keys)"

text \<open>
  \<open>processStructuredKnowledge\<close> on the stored buckets: its first statement replaces them
  by \<open>{}\<close>, then the categories are stored one by one.
\<close>

definition processStructuredKnowledge :: "buckets \<Rightarrow> jsval \<Rightarrow> buckets \<times> error option" where
  "processStructuredKnowledge knowledgeBuckets data = processCategories data [] CATEGORIES"

section \<open>The categorization step of \<open>extractKnowledge\<close>\<close>

text \<open>The step is at lines 1020 to 1042 of \<open>extractKnowledge\<close>.\<close>

text \<open>
  "Ensure all categories exist": \<open>if (!structuredData[cat]) structuredData[cat] = []\<close> for
  the six names. On \<open>null\<close> the read raises. On an object a missing or falsy member is set
  (a new key goes last; the last member of a key is the one that counts). On a string, a
  number or a boolean the assignment has no effect (the script is not in strict mode); an
  array receives six properties that no later code tells from missing ones.
\<close>

definition ensureCategories :: "jsval \<Rightarrow> error + jsval" where
  "ensureCategories structuredData =
     (case structuredData of
        JNull \<Rightarrow> Inl TypeError
      | JObj ms \<Rightarrow>
          Inr (JObj (foldl (\<lambda>ms cat. case member ms cat of
                                       None \<Rightarrow> ms @ [(cat, JArr [])]
                                     | Some v \<Rightarrow> if truthy v then ms else ms @ [(cat, JArr [])])
                       ms (map categoryKey CATEGORIES)))
      | v \<Rightarrow> Inr v)"

text \<open>
  The \<open>try\<close>/\<open>catch\<close> that obtains \<open>structuredData\<close>. \<open>jsonMode\<close> is what
  \<open>callGeminiJSON\<close> gave (an error, or the parsed value), \<open>regular\<close> what \<open>callGemini\<close>
  gave (an error, or the text of the answer), used only when the first call failed.
\<close>

definition obtainStructuredData :: "error + jsval \<Rightarrow> error + string \<Rightarrow> error + jsval" where
  "obtainStructuredData jsonMode regular =
     (case jsonMode of
        Inr v \<Rightarrow> Inr v
      | Inl jsonError \<Rightarrow>
          (case regular of
             Inl e \<Rightarrow> Inl e
           | Inr rawResponse \<Rightarrow> parseJSONFromResponse rawResponse))"

text \<open>
  The step from the two calls to the stored buckets. Every error reaches the \<open>catch\<close> of
  \<open>extractKnowledge\<close>, which reports it and leaves the state as it then is.
\<close>

definition categorize :: "buckets \<Rightarrow> error + jsval \<Rightarrow> error + string \<Rightarrow> buckets \<times> error option" where
  "categorize knowledgeBuckets jsonMode regular =
     (case obtainStructuredData jsonMode regular of
        Inl e \<Rightarrow> (knowledgeBuckets, Some e)
      | Inr structuredData \<Rightarrow>
          (case ensureCategories structuredData of
             Inl e \<Rightarrow> (knowledgeBuckets, Some e)
           | Inr data \<Rightarrow> processStructuredKnowledge knowledgeBuckets data))"

section \<open>Retrieval context: the intent and the context of \<open>handleChat\<close>\<close>

text \<open>
  In \<open>handleChat\<close>, the intent is detected at lines 1589 to 1604 and the context built at
  lines 1609 to 1629.
\<close>

text \<open>\<open>s.match(/a|b|c/)\<close> is truthy when one of the alternatives occurs in \<open>s\<close>.\<close>

definition matchesAny :: "string \<Rightarrow> string list \<Rightarrow> bool" where
  "matchesAny s alts = list_ex (includesStr s) alts"

definition detectCategory :: "string \<Rightarrow> category" where
  "detectCategory query =
     (let lowerQuery = toLowerCase query in
      if matchesAny lowerQuery [''safe'', ''warning'', ''danger'', ''hazard'', ''caution''] then Safety
      else if matchesAny lowerQuery
                [''part'', ''spec'', ''dimension'', ''weight'', ''model'', ''cpu'', ''ram'', ''gpu'']
        then Parts
      else if matchesAny lowerQuery [''warranty'', ''coverage'', ''support'', ''contact'', ''claim'']
        then Warranty
      else if matchesAny lowerQuery
                [''error'', ''code'', ''diagnostic'', ''troubleshoot'', ''problem'', ''fix'']
        then Errors
      else if matchesAny lowerQuery [''video'', ''tutorial'', ''link'', ''url'', ''guide''] then Video
      else Procedures)"





text \<open>
  The specification's reading of the intent detection, to compare with \<open>detectCategory\<close>:
  a table of keyword groups in priority order; the first group with a keyword in the
  lower-cased query wins, and \<open>procedures\<close> is the default.
\<close>

definition intentGroups :: "(category \<times> string list) list" where
  "intentGroups =
     [(Safety, [''safe'', ''warning'', ''danger'', ''hazard'', ''caution'']),
      (Parts, [''part'', ''spec'', ''dimension'', ''weight'', ''model'', ''cpu'', ''ram'', ''gpu'']),
      (Warranty, [''warranty'', ''coverage'', ''support'', ''contact'', ''claim'']),
      (Errors, [''error'', ''code'', ''diagnostic'', ''troubleshoot'', ''problem'', ''fix'']),
      (Video, [''video'', ''tutorial'', ''link'', ''url'', ''guide''])]"

definition groupMatches :: "string \<Rightarrow> category \<times> string list \<Rightarrow> bool" where
  "groupMatches query g = (\<exists>k \<in> set (snd g). includesStr (toLowerCase query) k)"

definition specIntent :: "string \<Rightarrow> category" where
  "specIntent query =
     (case find (groupMatches query) intentGroups of
        Some g \<Rightarrow> fst g
      | None \<Rightarrow> Procedures)"

section \<open>Notions used in the statements\<close>






text \<open>
  The width the line builder takes for the previous item (\<open>item.width || item.text.length * 5\<close>),
  and the separator it pushes for a gap.
\<close>

definition effectiveWidth :: "row_item \<Rightarrow> real" where
  "effectiveWidth it = (if it_width it \<noteq> 0 then it_width it else real (length (it_text it)) * 5)"

definition gapSeparator :: "real \<Rightarrow> string list" where
  "gapSeparator gap = (if gap \<le> 2 then [] else if gap \<le> 15 then ['' ''] else ['' | ''])"

text \<open>
  What the proofs use of the subtraction of doubles. The difference of a double and itself
  is zero; the difference of two different doubles is not zero (the doubles have the
  subnormal numbers); swapping the operands changes the sign and nothing else, since
  rounding to nearest is symmetric; and the difference grows with the first operand, since
  rounding is monotone. The properties are stated on all reals: the function meant is the
  exact difference rounded to the nearest double (left as it is when it is too small to be
  one), which on two doubles is their difference as the program computes it.
\<close>

definition roundedSubtraction :: "float_op \<Rightarrow> bool" where
  "roundedSubtraction fsub \<longleftrightarrow>
     (\<forall>a. fsub a a = 0) \<and>
     (\<forall>a b. fsub a b = 0 \<longrightarrow> a = b) \<and>
     (\<forall>a b. fsub b a = - fsub a b) \<and>
     (\<forall>a b c. a \<le> b \<longrightarrow> fsub a c \<le> fsub b c)"

text \<open>
  Every integer up to \<open>2^53\<close> in absolute value is a double, and a sum or a difference
  that is a double is not rounded: the sum and the difference of two integers of absolute
  value at most \<open>2^52\<close> are exact.
\<close>

definition exactOnIntegers :: "float_op \<Rightarrow> float_op \<Rightarrow> bool" where
  "exactOnIntegers fadd fsub \<longleftrightarrow>
     (\<forall>m n :: int. \<bar>m\<bar> \<le> 2 ^ 52 \<and> \<bar>n\<bar> \<le> 2 ^ 52 \<longrightarrow>
        fadd (of_int m) (of_int n) = of_int (m + n) \<and>
        fsub (of_int m) (of_int n) = of_int (m - n))"

text \<open>
  The fragment the structurer makes of an item, with the \<open>y\<close> it is placed by; \<open>None\<close> for
  an item it skips.
\<close>

definition fragOf :: "float_op \<Rightarrow> real \<Rightarrow> text_item \<Rightarrow> (real \<times> row_item) option" where
  "fragOf fsub height item =
     (case str item of
        None \<Rightarrow> None
      | Some txt \<Rightarrow>
          if txt = [] then None
          else Some (case translate item of None \<Rightarrow> 0 | Some t \<Rightarrow> fsub height (snd t),
                     \<lparr>it_x = (case translate item of None \<Rightarrow> 0 | Some t \<Rightarrow> fst t),
                      it_text = txt,
                      it_width = (case width item of None \<Rightarrow> 0 | Some w \<Rightarrow> w)\<rparr>))"

definition fragments :: "float_op \<Rightarrow> real \<Rightarrow> text_item list \<Rightarrow> (real \<times> row_item) list" where
  "fragments fsub height items = List.map_filter (fragOf fsub height) items"

definition addFragment :: "float_op \<Rightarrow> row list \<Rightarrow> real \<times> row_item \<Rightarrow> row list" where
  "addFragment fsub rows f = addToRow fsub (fst f) (snd f) rows"

text \<open>
  Two \<open>y\<close> coordinates within the row tolerance of each other: the test of the clustering
  loop, \<open>Math.abs(a - b) < rowTolerance\<close>, on the difference as the program computes it.
\<close>

definition nearY :: "float_op \<Rightarrow> real \<Rightarrow> real \<Rightarrow> bool" where
  "nearY fsub a b \<longleftrightarrow> \<bar>fsub a b\<bar> < rowTolerance"

text \<open>
  The rows of a page are separated when that test is transitive among the \<open>y\<close> computed for
  its fragments: no chain of fragments, each within tolerance of the next, has ends that are
  not within tolerance.
\<close>

definition rowsSeparated :: "float_op \<Rightarrow> (real \<times> row_item) list \<Rightarrow> bool" where
  "rowsSeparated fsub fs \<longleftrightarrow>
     (\<forall>a \<in> set fs. \<forall>b \<in> set fs. \<forall>c \<in> set fs.
        nearY fsub (fst a) (fst b) \<and> nearY fsub (fst b) (fst c) \<longrightarrow> nearY fsub (fst a) (fst c))"

text \<open>Fragments of one row at the same \<open>x\<close> are the same fragment (text and width).\<close>

definition sameXSameItem :: "float_op \<Rightarrow> (real \<times> row_item) list \<Rightarrow> bool" where
  "sameXSameItem fsub fs \<longleftrightarrow>
     (\<forall>a \<in> set fs. \<forall>b \<in> set fs.
        nearY fsub (fst a) (fst b) \<and> it_x (snd a) = it_x (snd b) \<longrightarrow> snd a = snd b)"

text \<open>
  What the clustering loop has built after the fragments \<open>fs\<close>, when the rows are
  separated: the rows have distinct reference \<open>y\<close>, each the \<open>y\<close> of a fragment, no two
  within tolerance; a row holds, in input order, the fragments within tolerance of its
  reference; every fragment is within tolerance of a row.
\<close>

definition clustered :: "float_op \<Rightarrow> (real \<times> row_item) list \<Rightarrow> row list \<Rightarrow> bool" where
  "clustered fsub fs rows \<longleftrightarrow>
     distinct (map row_y rows) \<and>
     (\<forall>r \<in> set rows. row_y r \<in> fst ` set fs) \<and>
     (\<forall>r \<in> set rows. \<forall>s \<in> set rows. nearY fsub (row_y r) (row_y s) \<longrightarrow> row_y r = row_y s) \<and>
     (\<forall>r \<in> set rows. row_items r = map snd (filter (\<lambda>f. nearY fsub (row_y r) (fst f)) fs)) \<and>
     (\<forall>f \<in> set fs. \<exists>r \<in> set rows. nearY fsub (row_y r) (fst f))"

text \<open>The least \<open>y\<close> among the fragments within tolerance of \<open>y\<close>: a name for the row of \<open>y\<close>.\<close>

definition rowClassMin :: "float_op \<Rightarrow> (real \<times> row_item) list \<Rightarrow> real \<Rightarrow> real" where
  "rowClassMin fsub fs y = Min {z \<in> fst ` set fs. nearY fsub y z}"

text \<open>The rows after both sorts, each as its name and its items from left to right.\<close>

definition finalPairs ::
  "float_op \<Rightarrow> (real \<times> row_item) list \<Rightarrow> row list \<Rightarrow> (real \<times> row_item list) list" where
  "finalPairs fsub fs rows =
     map (\<lambda>r. (rowClassMin fsub fs (row_y r), sort_key it_x (row_items r))) (sort_key row_y rows)"

section \<open>Sample inputs\<close>

definition longPage :: page_record where
  "longPage = \<lparr>pageNum = 2,
     page_text = ''WARNING: Do not immerse the appliance in water or other liquids.''\<rparr>"



definition fencedResponse :: string where
  \<open>fencedResponse = ''```json'' @ [CHR 0x0A] @ ''{"a":1}'' @ [CHR 0x0A] @ ''```''\<close>



definition staleBuckets :: buckets where
  "staleBuckets = [(Warranty, [\<lparr>ki_page = JNum 3, ki_text = ''1 year limited warranty''\<rparr>])]"

definition partialResponse :: jsval where
  "partialResponse =
     JObj [(''safety'', JArr [JObj [(''page'', JNum 1), (''text'', JStr ''Hot surface. Do not touch.'')]]),
           (''parts'', JArr [JNull])]"

text \<open>
  Sample fragments. Their coordinates and widths are integers of a few digits, and so are
  all the sums and differences the structurer takes of them; doubles compute those exactly,
  so the sample runs take the exact sum and difference for \<open>fadd\<close> and \<open>fsub\<close>.
\<close>

text \<open>Fragments on one line of a page of height 792.\<close>

definition fragLeft :: "real \<Rightarrow> real \<Rightarrow> text_item" where
  "fragLeft x w = \<lparr>str = Some ''ab'', translate = Some (x, 700), width = Some w\<rparr>"

definition fragRight :: "real \<Rightarrow> text_item" where
  "fragRight x = \<lparr>str = Some ''cd'', translate = Some (x, 700), width = Some 10\<rparr>"

text \<open>
  On a page of height 100: three fragments 7 units apart in \<open>y\<close>, a fragment at the position
  of the first, and a fragment 3 units below the first.
\<close>

definition fragA :: text_item where
  "fragA = \<lparr>str = Some ''a'', translate = Some (0, 100), width = Some 5\<rparr>"

definition fragB :: text_item where
  "fragB = \<lparr>str = Some ''b'', translate = Some (10, 93), width = Some 5\<rparr>"

definition fragC :: text_item where
  "fragC = \<lparr>str = Some ''c'', translate = Some (20, 86), width = Some 5\<rparr>"

definition fragD :: text_item where
  "fragD = \<lparr>str = Some ''d'', translate = Some (0, 100), width = Some 5\<rparr>"

definition fragE :: text_item where
  "fragE = \<lparr>str = Some ''e'', translate = Some (10, 97), width = Some 5\<rparr>"

section \<open>Properties of the compression adapter\<close>

lemma callScaleDown_sent:
  "snd (callScaleDown K F sent ctx P M r) = sent \<or>
   snd (callScaleDown K F sent ctx P M r) = sent @ [\<lparr>req_context = ctx, req_prompt = P, req_model = M, req_rate = r\<rparr>]"
  by (simp add: callScaleDown_def Let_def split: fetch_outcome.split option.split)

lemma compressPage_sent:
  "snd (compressPage K F P M st p) = snd st \<or>
   (50 \<le> length (page_text p) \<and>
    snd (compressPage K F P M st p) =
      snd st @ [\<lparr>req_context = page_text p, req_prompt = P, req_model = M, req_rate = 95 / 100\<rparr>])"
proof (cases "length (page_text p) < 50")
  case True
  then show ?thesis by (simp add: compressPage_def Let_def)
next
  case False
  then show ?thesis
    using callScaleDown_sent [of K F "snd st" "page_text p" P M "95 / 100"]
    by (auto simp: compressPage_def Let_def split: prod.split)
qed

lemma compressLoop_sent:
  "\<forall>r \<in> set (snd st). 50 \<le> length (req_context r) \<Longrightarrow>
   \<forall>r \<in> set (snd (foldl (compressPage K F P M) st pages)). 50 \<le> length (req_context r)"
proof (induction pages arbitrary: st)
  case Nil
  then show ?case by simp
next
  case (Cons p ps)
  have "\<forall>r \<in> set (snd (compressPage K F P M st p)). 50 \<le> length (req_context r)"
    using compressPage_sent [of K F P M st p] Cons.prems by auto
  from Cons.IH [OF this] show ?case by simp
qed

lemma compressPage_short:
  "length (page_text p) < 50 \<Longrightarrow>
   compressPage K F P M st p =
     (fst st @ (if trim (page_text p) \<noteq> []
                then [\<lparr>cp_page = pageNum p, cp_text = JStr (page_text p)\<rparr>] else []), snd st)"
  by (simp add: compressPage_def Let_def)

lemma compressPage_entries:
  "\<exists>es. fst (compressPage K F P M st p) = fst st @ es \<and> (\<forall>c \<in> set es. cp_page c = pageNum p)"
  by (auto simp: compressPage_def Let_def split: prod.split)

lemma compressLoop_other_pages:
  "n \<notin> pageNum ` set pages \<Longrightarrow>
   filter (\<lambda>c. cp_page c = n) (fst (foldl (compressPage K F P M) st pages)) =
   filter (\<lambda>c. cp_page c = n) (fst st)"
proof (induction pages arbitrary: st)
  case Nil
  then show ?case by simp
next
  case (Cons p ps)
  obtain es where es: "fst (compressPage K F P M st p) = fst st @ es"
    "\<forall>c \<in> set es. cp_page c = pageNum p"
    using compressPage_entries by blast
  have "n \<noteq> pageNum p" "n \<notin> pageNum ` set ps" using Cons.prems by auto
  then have "filter (\<lambda>c. cp_page c = n) es = []" using es(2) by (auto simp: filter_empty_conv)
  with Cons.IH [OF \<open>n \<notin> pageNum ` set ps\<close>, of "compressPage K F P M st p"] es(1)
  show ?case by simp
qed

lemma compressLoop_short_entry:
  "distinct (map pageNum pages) \<Longrightarrow> p \<in> set pages \<Longrightarrow> length (page_text p) < 50 \<Longrightarrow>
   filter (\<lambda>c. cp_page c = pageNum p) (fst (foldl (compressPage K F P M) st pages)) =
   filter (\<lambda>c. cp_page c = pageNum p) (fst st) @
     (if trim (page_text p) \<noteq> [] then [\<lparr>cp_page = pageNum p, cp_text = JStr (page_text p)\<rparr>] else [])"
proof (induction pages arbitrary: st)
  case Nil
  then show ?case by simp
next
  case (Cons q qs)
  show ?case
  proof (cases "p = q")
    case True
    then have "pageNum p \<notin> pageNum ` set qs" using Cons.prems(1) by auto
    from compressLoop_other_pages [OF this, of K F P M "compressPage K F P M st q"]
    show ?thesis using True Cons.prems(3) by (simp add: compressPage_short)
  next
    case False
    then have pq1: "p \<in> set qs" using Cons.prems by simp
    have "pageNum q \<notin> pageNum ` set qs" using Cons.prems(1) by simp
    with pq1 have pq2: "pageNum p \<noteq> pageNum q" by (metis imageI)
    note pq = pq1 pq2
    obtain es where es: "fst (compressPage K F P M st q) = fst st @ es"
      "\<forall>c \<in> set es. cp_page c = pageNum q"
      using compressPage_entries by blast
    have "filter (\<lambda>c. cp_page c = pageNum p) es = []"
      using es(2) pq(2) by (auto simp: filter_empty_conv)
    with Cons.IH [OF _ pq(1) Cons.prems(3), of "compressPage K F P M st q"] Cons.prems(1) es(1)
    show ?thesis by simp
  qed
qed


text \<open>
  C6. A page whose text is shorter than 50 code units never reaches the compression service:
  the loop iteration leaves the list of requests as it was, and no request of a run carries
  the page's text. If the trimmed text is not empty, the iteration appends the page's entry
  with the text unchanged; if it is empty, it appends nothing. In a batch, the pages after
  it are processed from exactly that state; and when the page numbers of the batch are
  distinct, the entries under the page's number are that one entry, or none.
\<close>

theorem short_page_bypasses_compression:
  assumes "length (page_text p) < 50"
  shows "compressPage K F P M st p =
           (if trim (page_text p) \<noteq> []
            then (fst st @ [\<lparr>cp_page = pageNum p, cp_text = JStr (page_text p)\<rparr>], snd st)
            else st)
       \<and> page_text p \<notin> req_context ` set (snd (compressPages K F P M pages))
       \<and> compressPages K F P M (pre @ p # post) =
           foldl (compressPage K F P M)
             (fst (compressPages K F P M pre) @
                (if trim (page_text p) \<noteq> []
                 then [\<lparr>cp_page = pageNum p, cp_text = JStr (page_text p)\<rparr>] else []),
              snd (compressPages K F P M pre)) post
       \<and> (p \<in> set pages \<and> distinct (map pageNum pages) \<longrightarrow>
            filter (\<lambda>c. cp_page c = pageNum p) (fst (compressPages K F P M pages)) =
              (if trim (page_text p) \<noteq> []
               then [\<lparr>cp_page = pageNum p, cp_text = JStr (page_text p)\<rparr>] else []))"
proof -
  have step: "compressPage K F P M st p =
           (if trim (page_text p) \<noteq> []
            then (fst st @ [\<lparr>cp_page = pageNum p, cp_text = JStr (page_text p)\<rparr>], snd st)
            else st)"
    using assms by (simp add: compressPage_short)
  have "\<forall>r \<in> set (snd (compressPages K F P M pages)). 50 \<le> length (req_context r)"
    unfolding compressPages_def by (rule compressLoop_sent) simp
  then have sent: "page_text p \<notin> req_context ` set (snd (compressPages K F P M pages))"
    using assms by force
  have batch: "compressPages K F P M (pre @ p # post) =
           foldl (compressPage K F P M)
             (fst (compressPages K F P M pre) @
                (if trim (page_text p) \<noteq> []
                 then [\<lparr>cp_page = pageNum p, cp_text = JStr (page_text p)\<rparr>] else []),
              snd (compressPages K F P M pre)) post"
    using assms by (simp add: compressPages_def compressPage_short)
  have entry: "filter (\<lambda>c. cp_page c = pageNum p) (fst (compressPages K F P M pages)) =
           (if trim (page_text p) \<noteq> []
            then [\<lparr>cp_page = pageNum p, cp_text = JStr (page_text p)\<rparr>] else [])"
    if "p \<in> set pages" "distinct (map pageNum pages)"
    unfolding compressPages_def
    using compressLoop_short_entry [OF that(2) that(1) assms, of K F P M "([], [])"] by simp
  from step sent batch entry show ?thesis by blast
qed

lemma trim_Hi: "trim ''Hi'' = ''Hi''"
  by (simp add: trim_def isWhiteSpace_def)

theorem short_page_bypasses_compression_witness:
  "length (page_text \<lparr>pageNum = 1, page_text = ''Hi''\<rparr>) < 50
   \<and> ''Hi'' \<notin> req_context ` set (snd (compressPages ''key'' (\<lambda>n r. NetworkFailure) ''clean'' ''gpt-4o''
         [\<lparr>pageNum = 1, page_text = ''Hi''\<rparr>, longPage]))
   \<and> filter (\<lambda>c. cp_page c = 1) (fst (compressPages ''key'' (\<lambda>n r. NetworkFailure) ''clean'' ''gpt-4o''
         [\<lparr>pageNum = 1, page_text = ''Hi''\<rparr>, longPage])) =
       [\<lparr>cp_page = 1, cp_text = JStr ''Hi''\<rparr>]"
proof -
  let ?p = "\<lparr>pageNum = 1, page_text = ''Hi''\<rparr>"
  let ?run = "compressPages ''key'' (\<lambda>n r. NetworkFailure) ''clean'' ''gpt-4o'' [?p, longPage]"
  have h1: "?p \<in> set [?p, longPage]" by simp
  have h2: "length (page_text ?p) < 50" by simp
  have h3: "distinct (map pageNum [?p, longPage])" by (simp add: longPage_def)
  note t = short_page_bypasses_compression [OF h2, of "''key''" "\<lambda>n r. NetworkFailure" "''clean''"
      "''gpt-4o''" "([], [])" "[?p, longPage]" "[]" "[longPage]"]
  from t have "page_text ?p \<notin> req_context ` set (snd ?run)" by blast
  then have a: "''Hi'' \<notin> req_context ` set (snd ?run)" by simp
  from t h1 h3 have "filter (\<lambda>c. cp_page c = pageNum ?p) (fst ?run) =
      (if trim (page_text ?p) \<noteq> [] then [\<lparr>cp_page = pageNum ?p, cp_text = JStr (page_text ?p)\<rparr>] else [])"
    by blast
  then have b: "filter (\<lambda>c. cp_page c = 1) (fst ?run) = [\<lparr>cp_page = 1, cp_text = JStr ''Hi''\<rparr>]"
    by (simp add: trim_Hi)
  from h2 a b show ?thesis by blast
qed

lemma includes_unavailable: "includesStr ''Summarization unavailable'' ''unavailable''"
  by simp

lemma compressLoop_no_key:
  "foldl (compressPage [] F P M) (cps, sent) pages =
     (cps @ map (\<lambda>p. \<lparr>cp_page = pageNum p, cp_text = JStr (page_text p)\<rparr>)
              (filter (\<lambda>p. 50 \<le> length (page_text p) \<or> trim (page_text p) \<noteq> []) pages), sent)"
proof (induction pages arbitrary: cps)
  case Nil
  then show ?case by simp
next
  case (Cons p ps)
  have "compressPage [] F P M (cps, sent) p =
        (cps @ (if 50 \<le> length (page_text p) \<or> trim (page_text p) \<noteq> []
                then [\<lparr>cp_page = pageNum p, cp_text = JStr (page_text p)\<rparr>] else []), sent)"
    using includes_unavailable
    by (simp add: compressPage_def callScaleDown_def Let_def)
  then show ?case using Cons.IH by simp
qed

text \<open>
  C10. With no ScaleDown key configured, \<open>callScaleDown\<close> answers
  "Summarization unavailable" and sends nothing; the answer is not accepted, so the run sends
  no request and the batch holds, in page order, the original text of every page of length
  50 or more (and of every shorter page that is not blank).
\<close>

theorem no_key_compression_is_identity:
  "callScaleDown [] F sent ctx P M r = (JStr ''Summarization unavailable'', sent)
   \<and> \<not> accepted (JStr ''Summarization unavailable'')
   \<and> compressPages [] F P M pages =
       (map (\<lambda>p. \<lparr>cp_page = pageNum p, cp_text = JStr (page_text p)\<rparr>)
            (filter (\<lambda>p. 50 \<le> length (page_text p) \<or> trim (page_text p) \<noteq> []) pages), [])"
  using includes_unavailable
  by (simp add: callScaleDown_def compressPages_def compressLoop_no_key)

theorem no_key_compression_is_identity_witness:
  "compressPages [] (\<lambda>n r. Response 200 (Some (JObj [(''compressed_prompt'', JStr ''a short summary'')])))
      ''clean'' ''gpt-4o'' [\<lparr>pageNum = 1, page_text = ''   ''\<rparr>, longPage] =
     ([\<lparr>cp_page = 2, cp_text = JStr ''WARNING: Do not immerse the appliance in water or other liquids.''\<rparr>], [])"
  using no_key_compression_is_identity [of "\<lambda>n r. Response 200 (Some (JObj [(''compressed_prompt'', JStr ''a short summary'')]))"
      "[]" "[]" "''clean''" "''gpt-4o''" 0 "[\<lparr>pageNum = 1, page_text = ''   ''\<rparr>, longPage]"]
  by (simp add: longPage_def trim_def isWhiteSpace_def)

text \<open>
  C1. The claim: when the compression call fails with a transport or service error, the
  page's entry holds the original text. What the code does on a page of 64 code units with
  a key configured: on a network failure, on status 500 and on a malformed body,
  \<open>callScaleDown\<close> catches the error and answers "ScaleDown Connection Failed", which
  passes the acceptance test and is stored as the page's text.
\<close>

theorem transport_failure_stores_sentinel:
  "compressPages ''key'' (\<lambda>n r. NetworkFailure) ''clean'' ''gpt-4o'' [longPage] =
     ([\<lparr>cp_page = 2, cp_text = JStr ''ScaleDown Connection Failed''\<rparr>],
      [\<lparr>req_context = page_text longPage, req_prompt = ''clean'', req_model = ''gpt-4o'', req_rate = 95 / 100\<rparr>])
   \<and> fst (compressPages ''key'' (\<lambda>n r. Response 500 None) ''clean'' ''gpt-4o'' [longPage]) =
     [\<lparr>cp_page = 2, cp_text = JStr ''ScaleDown Connection Failed''\<rparr>]
   \<and> fst (compressPages ''key'' (\<lambda>n r. Response 200 None) ''clean'' ''gpt-4o'' [longPage]) =
     [\<lparr>cp_page = 2, cp_text = JStr ''ScaleDown Connection Failed''\<rparr>]
   \<and> 50 \<le> length (page_text longPage)"
  by (simp add: compressPages_def compressPage_def callScaleDown_def res_ok_def longPage_def Let_def)

section \<open>Properties of the retrieval context\<close>

lemma matchesAny_iff: "matchesAny s alts \<longleftrightarrow> (\<exists>k \<in> set alts. includesStr s k)"
  by (simp add: matchesAny_def list_ex_iff)

lemma detectCategory_specIntent: "detectCategory query = specIntent query"
  by (simp add: detectCategory_def specIntent_def intentGroups_def groupMatches_def
      matchesAny_iff Let_def del: includesStr.simps)

lemma lower_warranty_query:
  "toLowerCase ''What's the warranty period?'' = ''what's the warranty period?''"
  by code_simp

lemma detect_warranty_query: "detectCategory ''What's the warranty period?'' = Warranty"
  unfolding detectCategory_def lower_warranty_query Let_def
  by (simp add: matchesAny_def)

text \<open>
  C8. Intent detection lower-cases the query and tries the keyword groups in the order
  safety, parts, warranty, errors, video; the first group with a keyword occurring in the
  query wins, and \<open>procedures\<close> is selected when no group matches: \<open>detectCategory\<close>
  computes the table lookup \<open>specIntent\<close>. The query "What's the warranty period?" selects
  \<open>warranty\<close>.
\<close>

theorem intent_detection_priority:
  "detectCategory query = specIntent query
   \<and> detectCategory ''What's the warranty period?'' = Warranty
   \<and> ((\<forall>g \<in> set intentGroups. \<not> groupMatches query g) \<longrightarrow> detectCategory query = Procedures)"
proof -
  have "(\<forall>g \<in> set intentGroups. \<not> groupMatches query g) \<longrightarrow> specIntent query = Procedures"
  proof
    assume "\<forall>g \<in> set intentGroups. \<not> groupMatches query g"
    then have "find (groupMatches query) intentGroups = None"
      by (simp add: find_None_iff)
    then show "specIntent query = Procedures" by (simp add: specIntent_def)
  qed
  then show ?thesis
    using detectCategory_specIntent detect_warranty_query by simp
qed

lemma lower_setup_query: "toLowerCase ''How do I set it up?'' = ''how do i set it up?''"
  by code_simp

lemma setup_query_no_group:
  "\<forall>g \<in> set intentGroups. \<not> groupMatches ''How do I set it up?'' g"
  unfolding groupMatches_def lower_setup_query intentGroups_def
  by simp

theorem intent_detection_priority_witness:
  "detectCategory ''How do I set it up?'' = Procedures
   \<and> specIntent ''How do I set it up?'' = Procedures
   \<and> detectCategory ''Is the RAM under warranty?'' = Parts"
proof -
  have a: "detectCategory ''How do I set it up?'' = Procedures"
    using intent_detection_priority [of "''How do I set it up?''"] setup_query_no_group by blast
  have b: "specIntent ''How do I set it up?'' = Procedures"
    using intent_detection_priority [of "''How do I set it up?''"] a by simp
  have "toLowerCase ''Is the RAM under warranty?'' = ''is the ram under warranty?''"
    by code_simp
  then have c: "detectCategory ''Is the RAM under warranty?'' = Parts"
    unfolding detectCategory_def Let_def by (simp add: matchesAny_def)
  from a b c show ?thesis by simp
qed
















section \<open>Properties of \<open>parseJSONFromResponse\<close>\<close>

lemma includesStr_iff: "includesStr s sub \<longleftrightarrow> (\<exists>u v. s = u @ sub @ v)"
proof (induction s)
  case Nil
  then show ?case by auto
next
  case (Cons c cs)
  show ?case
  proof
    assume "includesStr (c # cs) sub"
    then consider "prefix sub (c # cs)" | "includesStr cs sub" by auto
    then show "\<exists>u v. c # cs = u @ sub @ v"
    proof cases
      case 1
      then obtain v where "c # cs = sub @ v" by (auto simp: prefix_def)
      then have "c # cs = [] @ sub @ v" by simp
      then show ?thesis by blast
    next
      case 2
      with Cons.IH obtain u v where "cs = u @ sub @ v" by blast
      then have "c # cs = (c # u) @ sub @ v" by simp
      then show ?thesis by blast
    qed
  next
    assume "\<exists>u v. c # cs = u @ sub @ v"
    then obtain u v where uv: "c # cs = u @ sub @ v" by blast
    show "includesStr (c # cs) sub"
    proof (cases u)
      case Nil
      with uv have "prefix sub (c # cs)" by (simp add: prefix_def)
      then show ?thesis by simp
    next
      case (Cons d u')
      with uv have "cs = u' @ sub @ v" by simp
      with Cons.IH have "includesStr cs sub" by blast
      then show ?thesis by simp
    qed
  qed
qed

lemma rev_take_drop_while: "rev xs = rev (dropWhile P xs) @ rev (takeWhile P xs)"
proof -
  have "rev xs = rev (takeWhile P xs @ dropWhile P xs)" by simp
  then show ?thesis by (simp only: rev_append)
qed

lemma takeWhile_all: "x \<in> set (takeWhile P xs) \<Longrightarrow> P x"
  by (rule set_takeWhileD [THEN conjunct2])

lemma last_occurrence_split:
  assumes "q \<in> set pre"
  shows "pre = rev (tl (dropWhile (\<lambda>c. c \<noteq> q) (rev pre))) @ [q] @ rev (takeWhile (\<lambda>c. c \<noteq> q) (rev pre))"
proof -
  let ?P = "\<lambda>c. c \<noteq> q"
  from assms have "dropWhile ?P (rev pre) \<noteq> []" by simp
  then obtain d ds where d: "dropWhile ?P (rev pre) = d # ds" by (cases "dropWhile ?P (rev pre)") auto
  have "\<not> ?P (hd (dropWhile ?P (rev pre)))"
    by (rule hd_dropWhile) (simp add: d)
  then have dq: "d = q" by (simp add: d)
  have "rev (rev pre) = rev (dropWhile ?P (rev pre)) @ rev (takeWhile ?P (rev pre))"
    by (rule rev_take_drop_while)
  then have "pre = rev (d # ds) @ rev (takeWhile ?P (rev pre))" by (simp only: rev_rev_ident d)
  then have "pre = rev ds @ [q] @ rev (takeWhile ?P (rev pre))" by (simp add: dq)
  moreover have "tl (dropWhile ?P (rev pre)) = ds" by (simp add: d)
  ultimately show ?thesis by (simp only:)
qed

text \<open>
  The model of the lookbehind \<open>(?<=":.*"[^"]*)\<close> agrees with its reading as a regular
  expression: the text before the position ends with a quote and a colon, characters
  other than line terminators, a quote, and characters other than quotes.
\<close>

lemma newlineLookbehind_iff:
  "newlineLookbehind pre \<longleftrightarrow>
     (\<exists>a b c. pre = a @ [CHR 0x22, CHR '':''] @ b @ [CHR 0x22] @ c
        \<and> (\<forall>x \<in> set b. \<not> isLineTerminator x) \<and> CHR 0x22 \<notin> set c)"
proof
  let ?q = "CHR 0x22"
  let ?N = "\<lambda>c. \<not> isLineTerminator c"
  assume lb: "newlineLookbehind pre"
  define bq where "bq = rev (tl (dropWhile (\<lambda>c. c \<noteq> ?q) (rev pre)))"
  define c where "c = rev (takeWhile (\<lambda>c. c \<noteq> ?q) (rev pre))"
  define ll where "ll = rev (takeWhile ?N (rev bq))"
  define w where "w = rev (dropWhile ?N (rev bq))"
  from lb have q: "?q \<in> set pre" and inc: "includesStr ll [?q, CHR '':'']"
    by (simp_all add: newlineLookbehind_def bq_def ll_def Let_def)
  from last_occurrence_split [OF q] have pre: "pre = bq @ [?q] @ c" by (simp only: bq_def c_def)
  have cq: "?q \<notin> set c"
  proof
    assume "?q \<in> set c"
    then have "?q \<in> set (takeWhile (\<lambda>c. c \<noteq> ?q) (rev pre))" by (simp add: c_def)
    from takeWhile_all [OF this] show False by simp
  qed
  have "rev (rev bq) = rev (dropWhile ?N (rev bq)) @ rev (takeWhile ?N (rev bq))"
    by (rule rev_take_drop_while)
  then have bqs: "bq = w @ ll" by (simp only: rev_rev_ident w_def ll_def)
  have llLT: "?N x" if "x \<in> set ll" for x
  proof -
    from that have "x \<in> set (takeWhile ?N (rev bq))" by (simp add: ll_def)
    then show ?thesis by (rule takeWhile_all)
  qed
  from inc obtain u v where uv: "ll = u @ [?q, CHR '':''] @ v"
    unfolding includesStr_iff by blast
  have vLT: "\<forall>x \<in> set v. ?N x"
  proof
    fix x assume "x \<in> set v"
    then have "x \<in> set ll" by (simp add: uv)
    then show "?N x" by (rule llLT)
  qed
  have "pre = (w @ u) @ [?q, CHR '':''] @ v @ [?q] @ c"
    by (simp add: pre bqs uv)
  with vLT cq show "\<exists>a b c. pre = a @ [?q, CHR '':''] @ b @ [?q] @ c
        \<and> (\<forall>x \<in> set b. \<not> isLineTerminator x) \<and> ?q \<notin> set c" by blast
next
  let ?q = "CHR 0x22"
  let ?N = "\<lambda>c. \<not> isLineTerminator c"
  assume "\<exists>a b c. pre = a @ [?q, CHR '':''] @ b @ [?q] @ c
        \<and> (\<forall>x \<in> set b. \<not> isLineTerminator x) \<and> ?q \<notin> set c"
  then obtain a b c where pre: "pre = a @ [?q, CHR '':''] @ b @ [?q] @ c"
    and bLT: "\<forall>x \<in> set b. ?N x" and cq: "?q \<notin> set c" by blast
  from pre have q: "?q \<in> set pre" by simp
  have rp: "rev pre = rev c @ ?q # (rev b @ [CHR '':'', ?q] @ rev a)" by (simp add: pre)
  have "dropWhile (\<lambda>c. c \<noteq> ?q) (rev c @ ?q # (rev b @ [CHR '':'', ?q] @ rev a)) =
        dropWhile (\<lambda>c. c \<noteq> ?q) (?q # (rev b @ [CHR '':'', ?q] @ rev a))"
    by (rule dropWhile_append2) (use cq in auto)
  then have "dropWhile (\<lambda>c. c \<noteq> ?q) (rev c @ ?q # (rev b @ [CHR '':'', ?q] @ rev a)) =
        ?q # (rev b @ [CHR '':'', ?q] @ rev a)"
    by simp
  then have "dropWhile (\<lambda>c. c \<noteq> ?q) (rev pre) = ?q # (rev b @ [CHR '':'', ?q] @ rev a)"
    by (simp only: rp)
  then have "tl (dropWhile (\<lambda>c. c \<noteq> ?q) (rev pre)) = rev b @ [CHR '':'', ?q] @ rev a" by simp
  then have "rev (tl (dropWhile (\<lambda>c. c \<noteq> ?q) (rev pre))) = rev (rev b @ [CHR '':'', ?q] @ rev a)"
    by (rule arg_cong)
  then have bq: "rev (tl (dropWhile (\<lambda>c. c \<noteq> ?q) (rev pre))) = a @ [?q, CHR '':''] @ b" by simp
  have t1: "takeWhile ?N (rev b @ ([CHR '':'', ?q] @ rev a)) = rev b @ takeWhile ?N ([CHR '':'', ?q] @ rev a)"
    by (rule takeWhile_append2) (use bLT in auto)
  have t2: "takeWhile ?N ([CHR '':'', ?q] @ rev a) = [CHR '':'', ?q] @ takeWhile ?N (rev a)"
    by (simp add: isLineTerminator_def)
  have "rev (a @ [?q, CHR '':''] @ b) = rev b @ ([CHR '':'', ?q] @ rev a)" by simp
  then have "takeWhile ?N (rev (a @ [?q, CHR '':''] @ b)) = rev b @ [CHR '':'', ?q] @ takeWhile ?N (rev a)"
    by (simp only: t1 t2)
  then have "rev (takeWhile ?N (rev (a @ [?q, CHR '':''] @ b))) =
      rev (rev b @ [CHR '':'', ?q] @ takeWhile ?N (rev a))"
    by (rule arg_cong)
  then have "rev (takeWhile ?N (rev (a @ [?q, CHR '':''] @ b))) =
      rev (takeWhile ?N (rev a)) @ [?q, CHR '':''] @ b" by simp
  then have "includesStr (rev (takeWhile ?N (rev (a @ [?q, CHR '':''] @ b)))) [?q, CHR '':'']"
    unfolding includesStr_iff by blast
  then show "newlineLookbehind pre"
    unfolding newlineLookbehind_def Let_def bq using q by blast
qed


lemma set_trim: "set (trim s) \<subseteq> set s"
proof -
  have "set (trim s) \<subseteq> set (dropWhile isWhiteSpace s)"
    unfolding trim_def using set_dropWhileD [of _ isWhiteSpace "rev (dropWhile isWhiteSpace s)"]
    by auto
  also have "\<dots> \<subseteq> set s" using set_dropWhileD [of _ isWhiteSpace s] by auto
  finally show ?thesis .
qed

lemma set_stripFences: "set (stripFences s) \<subseteq> set s"
proof -
  define c1 where "c1 = (if startsWith (trim s) ''```json'' then drop 7 (trim s)
                      else if startsWith (trim s) ''```'' then drop 3 (trim s)
                      else trim s)"
  define c2 where "c2 = (if endsWith c1 ''```'' then take (length c1 - 3) c1 else c1)"
  have "set c1 \<subseteq> set (trim s)"
    unfolding c1_def using set_drop_subset [of _ "trim s"] by auto
  moreover have "set c2 \<subseteq> set c1"
    unfolding c2_def using set_take_subset [of _ c1] by auto
  moreover have "stripFences s = trim c2"
    by (simp add: stripFences_def c1_def c2_def Let_def)
  ultimately show ?thesis using set_trim [of s] set_trim [of c2] by auto
qed

lemma indexOf_None_iff: "indexOf s c = None \<longleftrightarrow> c \<notin> set s"
  by (induction s) auto

lemma lastIndexOf_None_iff: "lastIndexOf s c = None \<longleftrightarrow> c \<notin> set s"
  by (simp add: lastIndexOf_def indexOf_None_iff)

lemma no_brace_parse:
  assumes "CHR ''{'' \<notin> set response \<or> CHR ''}'' \<notin> set response"
  shows "parseJSONFromResponse response =
           (case JSON_parse (stripFences response) of
              Inr v \<Rightarrow> Inr v
            | Inl e \<Rightarrow> Inl NoValidJSONObject)"
proof -
  from assms have "CHR ''{'' \<notin> set (stripFences response) \<or> CHR ''}'' \<notin> set (stripFences response)"
    using set_stripFences [of response] by auto
  then have "indexOf (stripFences response) (CHR ''{'') = None
           \<or> lastIndexOf (stripFences response) (CHR ''}'') = None"
    by (simp add: indexOf_None_iff lastIndexOf_None_iff)
  then show ?thesis
    by (auto simp: parseJSONFromResponse_def Let_def split: sum.split option.split)
qed

lemma lex_a1: \<open>lexFrom (LNormal, []) ''{"a":1}'' = Some [TLBrace, TStr ''a'', TColon, TNum 1, TRBrace]\<close>
  by code_simp

lemma parse_a1:
  "parseTokens (ExpValue, [], None) [TLBrace, TStr ''a'', TColon, TNum 1, TRBrace] =
     Some (ExpEnd, [], Some (JObj [(''a'', JNum 1)]))"
  by (simp add: closeObject_def closeArray_def)

lemma JSON_parse_a1: \<open>JSON_parse ''{"a":1}'' = Inr (JObj [(''a'', JNum 1)])\<close>
  unfolding JSON_parse_def lex_a1 option.case parse_a1 by simp

lemma lex_a1_comma:
  \<open>lexFrom (LNormal, []) ''{"a":1,}'' = Some [TLBrace, TStr ''a'', TColon, TNum 1, TComma, TRBrace]\<close>
  by code_simp

lemma parse_a1_comma:
  "parseTokens (ExpValue, [], None) [TLBrace, TStr ''a'', TColon, TNum 1, TComma, TRBrace] = None"
  by (simp add: closeObject_def closeArray_def)

lemma JSON_parse_a1_comma: \<open>JSON_parse ''{"a":1,}'' = Inl SyntaxError\<close>
  unfolding JSON_parse_def lex_a1_comma option.case parse_a1_comma by simp

lemma strip_fenced: \<open>stripFences fencedResponse = ''{"a":1}''\<close>
  by (simp add: fencedResponse_def stripFences_def trim_def isWhiteSpace_def startsWith_def
      endsWith_def suffix_to_prefix Let_def)

lemma strip_a1_comma: \<open>stripFences ''{"a":1,}'' = ''{"a":1,}''\<close>
  by (simp add: stripFences_def trim_def isWhiteSpace_def startsWith_def
      endsWith_def suffix_to_prefix Let_def)

lemma braces_a1_comma:
  \<open>indexOf ''{"a":1,}'' (CHR ''{'') = Some 0\<close>
  \<open>lastIndexOf ''{"a":1,}'' (CHR ''}'') = Some 7\<close>
  \<open>substring ''{"a":1,}'' 0 (7 + 1) = ''{"a":1,}''\<close>
  by (simp_all add: lastIndexOf_def substring_def)

lemma repair_a1_comma:
  \<open>fixQuotes (fixTrailingCommas (fixNewlines [] ''{"a":1,}'')) = ''{"a":1}''\<close>
  by (simp add: fixQuotes_def isWhiteSpace_def)

lemma parse_fenced: \<open>parseJSONFromResponse fencedResponse = Inr (JObj [(''a'', JNum 1)])\<close>
  unfolding parseJSONFromResponse_def strip_fenced Let_def JSON_parse_a1 by simp

lemma parse_trailing_comma: \<open>parseJSONFromResponse ''{"a":1,}'' = Inr (JObj [(''a'', JNum 1)])\<close>
  unfolding parseJSONFromResponse_def strip_a1_comma Let_def JSON_parse_a1_comma braces_a1_comma
    sum.case prod.case option.case
  by (simp add: braces_a1_comma repair_a1_comma JSON_parse_a1_comma JSON_parse_a1
      del: fixNewlines.simps fixTrailingCommas.simps)

text \<open>
  C4, as amended. \<open>parseJSONFromResponse\<close> returns the object \<open>{a:1}\<close> for the fenced
  input (three backquotes and \<open>json\<close>, a line feed, \<open>{"a":1}\<close>, a line feed, three
  backquotes) and for the input \<open>{"a":1,}\<close> with a trailing comma. For an input with no
  opening brace or no closing brace it returns the value of the cleaned input when that is
  valid JSON by itself, and otherwise throws "No valid JSON object found in response".
\<close>

theorem parse_fenced_comma_and_no_brace:
  \<open>parseJSONFromResponse fencedResponse = Inr (JObj [(''a'', JNum 1)])
   \<and> parseJSONFromResponse ''{"a":1,}'' = Inr (JObj [(''a'', JNum 1)])
   \<and> (CHR ''{'' \<notin> set response \<or> CHR ''}'' \<notin> set response \<longrightarrow>
        parseJSONFromResponse response =
          (case JSON_parse (stripFences response) of
             Inr v \<Rightarrow> Inr v
           | Inl e \<Rightarrow> Inl NoValidJSONObject))\<close>
  using parse_fenced parse_trailing_comma no_brace_parse by blast

lemma JSON_parse_empty_array: "JSON_parse ''[]'' = Inr (JArr [])"
  by (simp add: JSON_parse_def startToken_def isJsonSpace_def closeArray_def)

lemma strip_empty_array: "stripFences ''[]'' = ''[]''"
  by (simp add: stripFences_def trim_def isWhiteSpace_def startsWith_def
      endsWith_def suffix_to_prefix Let_def)

text \<open>
  The claim C4 as stated, that every input with no brace makes the function throw, fails on
  the input \<open>[]\<close>: the direct parse succeeds and the empty array is returned.
\<close>

theorem no_brace_input_parses:
  "CHR ''{'' \<notin> set ''[]'' \<and> CHR ''}'' \<notin> set ''[]'' \<and> parseJSONFromResponse ''[]'' = Inr (JArr [])"
  unfolding parseJSONFromResponse_def strip_empty_array Let_def JSON_parse_empty_array by simp

lemma JSON_parse_no_json: "JSON_parse ''no json'' = Inl SyntaxError"
  by (simp add: JSON_parse_def startToken_def isJsonSpace_def isDigit_def isLower_def wordToken_def)

lemma strip_no_json: "stripFences ''no json'' = ''no json''"
  by (simp add: stripFences_def trim_def isWhiteSpace_def startsWith_def
      endsWith_def suffix_to_prefix Let_def)

lemma parse_no_json: "parseJSONFromResponse ''no json'' = Inl NoValidJSONObject"
  using no_brace_parse [of "''no json''"] by (simp add: strip_no_json JSON_parse_no_json)

theorem parse_fenced_comma_and_no_brace_witness:
  "parseJSONFromResponse ''no json'' = Inl NoValidJSONObject
   \<and> parseJSONFromResponse ''[]'' = Inr (JArr [])"
proof -
  have a: "parseJSONFromResponse ''no json'' = Inl NoValidJSONObject"
    using parse_fenced_comma_and_no_brace [of "''no json''"]
    by (simp add: strip_no_json JSON_parse_no_json)
  have b: "parseJSONFromResponse ''[]'' = Inr (JArr [])"
    using parse_fenced_comma_and_no_brace [of "''[]''"]
    by (simp add: strip_empty_array JSON_parse_empty_array)
  from a b show ?thesis by simp
qed

section \<open>Properties of the categorization normalizer\<close>

lemma collapseSpaces_nonspace:
  "\<not> isWhiteSpace c \<Longrightarrow> collapseSpaces (c # cs) = c # collapseSpaces cs"
  by simp

































lemma processCategory_error_keeps: "processCategory data b key = (b', Some e) \<Longrightarrow> b' = b"
  by (auto simp: processCategory_def split: if_splits jsval.splits sum.splits)

lemma processCategories_error_prefix:
  "processCategories data b0 keys = (b, Some e) \<Longrightarrow>
   \<exists>ks key rest. keys = ks @ key # rest \<and> processCategories data b0 ks = (b, None)
      \<and> processCategory data b key = (b, Some e)"
proof (induction keys arbitrary: b0)
  case Nil
  then show ?case by simp
next
  case (Cons k keys)
  obtain b1 r where step: "processCategory data b0 k = (b1, r)" by (cases "processCategory data b0 k")
  show ?case
  proof (cases r)
    case None
    with step Cons.prems have "processCategories data b1 keys = (b, Some e)" by simp
    from Cons.IH [OF this] obtain ks key rest where
      h: "keys = ks @ key # rest" "processCategories data b1 ks = (b, None)"
         "processCategory data b key = (b, Some e)" by blast
    from h(1) have "k # keys = (k # ks) @ key # rest" by simp
    moreover from step None h(2) have "processCategories data b0 (k # ks) = (b, None)" by simp
    ultimately show ?thesis using h(3) by blast
  next
    case (Some e')
    with step Cons.prems have eq: "b = b1" "e = e'" by simp_all
    from step Some have "b1 = b0" by (simp add: processCategory_error_keeps)
    with eq step Some have "processCategory data b key = (b, Some e)" if "key = k" for key
      using that by simp
    then have "k # keys = [] @ k # keys \<and> processCategories data b0 [] = (b, None)
        \<and> processCategory data b k = (b, Some e)"
      using eq \<open>b1 = b0\<close> by simp
    then show ?thesis by blast
  qed
qed

lemma ensureCategories_null: "ensureCategories d = Inl e \<longleftrightarrow> d = JNull \<and> e = TypeError"
  by (cases d) (auto simp: ensureCategories_def)

text \<open>
  C3, as amended. When categorization fails before normalization starts (the JSON-mode call
  fails and the fallback call or its parse fails too, or the parsed response is \<open>null\<close>),
  the stored buckets are exactly what they were. Once a response has been parsed,
  \<open>processStructuredKnowledge\<close> starts from the empty mapping and stores the categories
  one at a time, in the order of \<open>CATEGORIES\<close>; if normalization raises in some category,
  the mapping holds what the categories before it stored, and nothing of the one that
  raised.
\<close>

theorem buckets_kept_until_normalization:
  "(obtainStructuredData jm rg = Inl e \<longrightarrow> categorize old jm rg = (old, Some e))
   \<and> (obtainStructuredData jm rg = Inr JNull \<longrightarrow> categorize old jm rg = (old, Some TypeError))
   \<and> (obtainStructuredData jm rg = Inr d \<and> ensureCategories d = Inr data \<longrightarrow>
        categorize old jm rg = processCategories data [] CATEGORIES
        \<and> (\<forall>b err. categorize old jm rg = (b, Some err) \<longrightarrow>
              (\<exists>ks key rest. CATEGORIES = ks @ key # rest
                 \<and> processCategories data [] ks = (b, None)
                 \<and> processCategory data b key = (b, Some err))))"
proof -
  have a: "obtainStructuredData jm rg = Inl e \<longrightarrow> categorize old jm rg = (old, Some e)"
    by (simp add: categorize_def)
  have b: "obtainStructuredData jm rg = Inr JNull \<longrightarrow> categorize old jm rg = (old, Some TypeError)"
    by (simp add: categorize_def ensureCategories_def)
  have c: "categorize old jm rg = processCategories data [] CATEGORIES
        \<and> (\<forall>b err. categorize old jm rg = (b, Some err) \<longrightarrow>
              (\<exists>ks key rest. CATEGORIES = ks @ key # rest
                 \<and> processCategories data [] ks = (b, None)
                 \<and> processCategory data b key = (b, Some err)))"
    if h: "obtainStructuredData jm rg = Inr d" "ensureCategories d = Inr data"
  proof -
    from h have eq: "categorize old jm rg = processCategories data [] CATEGORIES"
      by (simp add: categorize_def processStructuredKnowledge_def)
    then show ?thesis using processCategories_error_prefix [of data "[]" CATEGORIES] by auto
  qed
  from a b c show ?thesis by blast
qed

lemma normalize_hot_surface:
  "normalizeItem (JObj [(''page'', JNum 1), (''text'', JStr ''Hot surface. Do not touch.'')]) =
     Inr (Some \<lparr>ki_page = JNum 1, ki_text = ''Hot surface. Do not touch.''\<rparr>)"
  by code_simp

lemma normalize_null: "normalizeItem JNull = Inl TypeError"
  by (simp add: normalizeItem_def)

lemma ensure_partial:
  "ensureCategories partialResponse =
     Inr (JObj [(''safety'', JArr [JObj [(''page'', JNum 1), (''text'', JStr ''Hot surface. Do not touch.'')]]),
           (''parts'', JArr [JNull]), (''warranty'', JArr []), (''procedures'', JArr []),
           (''errors'', JArr []), (''video'', JArr [])])"
  by (simp add: ensureCategories_def partialResponse_def CATEGORIES_def member_def)

lemma categorize_partial:
  "categorize staleBuckets (Inr partialResponse) (Inl GeminiError) =
     ([(Safety, [\<lparr>ki_page = JNum 1, ki_text = ''Hot surface. Do not touch.''\<rparr>])], Some TypeError)"
  unfolding categorize_def obtainStructuredData_def sum.case ensure_partial
  by (simp add: processStructuredKnowledge_def CATEGORIES_def processCategory_def member_def
      orElse_def normalize_hot_surface normalize_null)

text \<open>
  The claim C3 as stated, that a failure while normalizing leaves the stored buckets as
  they were, fails: with a warranty bucket stored and a response whose \<open>parts\<close> array
  holds \<open>null\<close>, the step ends in a TypeError and the mapping holds the new safety bucket
  only.
\<close>

theorem failed_normalization_replaces_buckets:
  "categorize staleBuckets (Inr partialResponse) (Inl GeminiError) =
     ([(Safety, [\<lparr>ki_page = JNum 1, ki_text = ''Hot surface. Do not touch.''\<rparr>])], Some TypeError)
   \<and> fst (categorize staleBuckets (Inr partialResponse) (Inl GeminiError)) \<noteq> staleBuckets"
  unfolding categorize_partial by (simp add: staleBuckets_def)

theorem buckets_kept_until_normalization_witness:
  "categorize staleBuckets (Inl GeminiError) (Inr ''no json'') = (staleBuckets, Some NoValidJSONObject)
   \<and> categorize staleBuckets (Inr JNull) (Inl GeminiError) = (staleBuckets, Some TypeError)"
proof -
  have p: "obtainStructuredData (Inl GeminiError) (Inr ''no json'') = Inl NoValidJSONObject"
    by (simp add: obtainStructuredData_def parse_no_json)
  have q: "obtainStructuredData (Inr JNull) (Inl GeminiError) = Inr JNull"
    by (simp add: obtainStructuredData_def)
  from buckets_kept_until_normalization [of "Inl GeminiError" "Inr ''no json''" NoValidJSONObject staleBuckets] p
  have a: "categorize staleBuckets (Inl GeminiError) (Inr ''no json'') = (staleBuckets, Some NoValidJSONObject)"
    by blast
  from buckets_kept_until_normalization [of "Inr JNull" "Inl GeminiError" TypeError staleBuckets] q
  have b: "categorize staleBuckets (Inr JNull) (Inl GeminiError) = (staleBuckets, Some TypeError)"
    by blast
  from a b show ?thesis by simp
qed

section \<open>Properties of the text structurer\<close>

lemma pushItem_step_prefix:
  "pushItem fadd fsub (l, xw) a =
     (l @ fst (pushItem fadd fsub ([], xw) a), snd (pushItem fadd fsub ([], xw) a))"
  by (simp add: pushItem_def Let_def)

lemma pushItem_prefix:
  "foldl (pushItem fadd fsub) (l, xw) its =
     (l @ fst (foldl (pushItem fadd fsub) ([], xw) its), snd (foldl (pushItem fadd fsub) ([], xw) its))"
proof (induction its rule: rev_induct)
  case Nil
  then show ?case by simp
next
  case (snoc a its)
  let ?P = "pushItem fadd fsub"
  obtain A B where ab: "foldl ?P ([], xw) its = (A, B)"
    by (cases "foldl ?P ([], xw) its")
  with snoc have "foldl ?P (l, xw) its = (l @ A, B)" by simp
  then have "foldl ?P (l, xw) (its @ [a]) = ?P (l @ A, B) a" by simp
  also have "\<dots> = (l @ A @ fst (?P ([], B) a), snd (?P ([], B) a))"
    using pushItem_step_prefix [of fadd fsub "l @ A" B a] by simp
  finally have lhs: "foldl ?P (l, xw) (its @ [a]) =
      (l @ A @ fst (?P ([], B) a), snd (?P ([], B) a))" .
  have "foldl ?P ([], xw) (its @ [a]) = ?P (A, B) a" using ab by simp
  also have "\<dots> = (A @ fst (?P ([], B) a), snd (?P ([], B) a))"
    using pushItem_step_prefix [of fadd fsub A B a] by simp
  finally show ?case using lhs by simp
qed

lemma pushItem_last:
  "snd (foldl (pushItem fadd fsub) st (its @ [p])) = (it_x p, effectiveWidth p)"
  by (simp add: pushItem_def effectiveWidth_def Let_def)

lemma lineItemsOf_Cons:
  "lineItemsOf fadd fsub (n # post) =
     it_text n # fst (foldl (pushItem fadd fsub) ([], it_x n, effectiveWidth n) post)"
proof -
  have "pushItem fadd fsub ([], - 1, 0) n = ([it_text n], it_x n, effectiveWidth n)"
    by (simp add: pushItem_def effectiveWidth_def Let_def)
  then show ?thesis
    using pushItem_prefix [of fadd fsub "[it_text n]" "(it_x n, effectiveWidth n)" post]
    by (simp add: lineItemsOf_def)
qed

lemma pushItem_gap:
  assumes "0 \<le> it_x p"
  shows "pushItem fadd fsub (l, it_x p, effectiveWidth p) n =
           (l @ gapSeparator (fsub (it_x n) (fadd (it_x p) (effectiveWidth p))) @ [it_text n],
            it_x n, effectiveWidth n)"
  using assms by (simp add: pushItem_def gapSeparator_def effectiveWidth_def Let_def)

lemma lineItemsOf_adjacent:
  assumes "0 \<le> it_x p"
  shows "lineItemsOf fadd fsub (pre @ p # n # post) =
           lineItemsOf fadd fsub (pre @ [p]) @
           gapSeparator (fsub (it_x n) (fadd (it_x p) (effectiveWidth p))) @
           lineItemsOf fadd fsub (n # post)"
proof -
  let ?P = "pushItem fadd fsub"
  let ?g = "gapSeparator (fsub (it_x n) (fadd (it_x p) (effectiveWidth p)))"
  obtain l where st: "foldl ?P ([], - 1, 0) (pre @ [p]) = (l, it_x p, effectiveWidth p)"
    using pushItem_last [of fadd fsub "([], - 1, 0)" pre p]
    by (cases "foldl ?P ([], - 1, 0) (pre @ [p])") simp
  then have l: "lineItemsOf fadd fsub (pre @ [p]) = l" by (simp add: lineItemsOf_def)
  have "foldl ?P ([], - 1, 0) (pre @ p # n # post) =
        foldl ?P (?P (foldl ?P ([], - 1, 0) (pre @ [p])) n) post"
    by simp
  also have "\<dots> = foldl ?P (l @ ?g @ [it_text n], it_x n, effectiveWidth n) post"
    by (simp only: st pushItem_gap [OF assms])
  finally have "lineItemsOf fadd fsub (pre @ p # n # post) =
      (l @ ?g @ [it_text n]) @ fst (foldl ?P ([], it_x n, effectiveWidth n) post)"
    using pushItem_prefix [of fadd fsub "l @ ?g @ [it_text n]" "(it_x n, effectiveWidth n)" post]
    by (simp add: lineItemsOf_def)
  then show ?thesis by (simp add: l lineItemsOf_Cons)
qed

lemma structured_two:
  "extractStructuredText (+) (-) [fragLeft x w, fragRight x'] 792 =
     (let rows2 = sortBy (\<lambda>a b. it_x a - it_x b)
                    [\<lparr>it_x = x, it_text = ''ab'', it_width = w\<rparr>,
                     \<lparr>it_x = x', it_text = ''cd'', it_width = 10\<rparr>];
          line = trim (concat (lineItemsOf (+) (-) rows2))
      in joinWith [CHR 0x0A] (map (\<lambda>line. trim (collapseSpaces line)) (filter (\<lambda>line. length line > 0) [line])))"
  by (simp add: extractStructuredText_def placeItem_def fragLeft_def fragRight_def rowTolerance_def
      buildLine_def sortBy_def Let_def)

lemma exact_sub:
  "exactOnIntegers fadd fsub \<Longrightarrow> \<bar>m\<bar> \<le> 2 ^ 52 \<Longrightarrow> \<bar>n\<bar> \<le> 2 ^ 52 \<Longrightarrow>
   fsub (of_int m) (of_int n) = of_int (m - n)"
  by (simp add: exactOnIntegers_def)

lemma exact_add:
  "exactOnIntegers fadd fsub \<Longrightarrow> \<bar>m\<bar> \<le> 2 ^ 52 \<Longrightarrow> \<bar>n\<bar> \<le> 2 ^ 52 \<Longrightarrow>
   fadd (of_int m) (of_int n) = of_int (m + n)"
  by (simp add: exactOnIntegers_def)

lemma exactOnIntegers_exact: "exactOnIntegers (+) (-)"
  by (simp add: exactOnIntegers_def)

lemma one_row_two:
  assumes ex: "exactOnIntegers fadd fsub"
  shows "extractStructuredText fadd fsub [fragLeft 0 10, fragRight (of_int x)] 792 =
     (let rows2 = sortBy (\<lambda>a b. fsub (it_x a) (it_x b))
                    [\<lparr>it_x = 0, it_text = ''ab'', it_width = 10\<rparr>,
                     \<lparr>it_x = of_int x, it_text = ''cd'', it_width = 10\<rparr>];
          line = trim (concat (lineItemsOf fadd fsub rows2))
      in joinWith [CHR 0x0A] (map (\<lambda>line. trim (collapseSpaces line)) (filter (\<lambda>line. length line > 0) [line])))"
proof -
  have y: "fsub 792 700 = 92" using exact_sub [OF ex, of 792 700] by simp
  have d: "fsub 92 92 = 0" using exact_sub [OF ex, of 92 92] by simp
  show ?thesis
    by (simp add: extractStructuredText_def placeItem_def fragLeft_def fragRight_def
        rowTolerance_def buildLine_def sortBy_def Let_def y d)
qed

lemma gap16:
  assumes ex: "exactOnIntegers fadd fsub"
  shows "extractStructuredText fadd fsub [fragLeft 0 10, fragRight 26] 792 = ''ab | cd''"
proof -
  have c: "fsub 0 26 = - 26" using exact_sub [OF ex, of 0 26] by simp
  have a: "fadd 0 10 = 10" using exact_add [OF ex, of 0 10] by simp
  have g: "fsub 26 10 = 16" using exact_sub [OF ex, of 26 10] by simp
  show ?thesis
    using one_row_two [OF ex, of 26]
    by (simp add: sortBy_def lineItemsOf_def pushItem_def trim_def isWhiteSpace_def Let_def c a g)
qed

lemma gap10:
  assumes ex: "exactOnIntegers fadd fsub"
  shows "extractStructuredText fadd fsub [fragLeft 0 10, fragRight 20] 792 = ''ab cd''"
proof -
  have c: "fsub 0 20 = - 20" using exact_sub [OF ex, of 0 20] by simp
  have a: "fadd 0 10 = 10" using exact_add [OF ex, of 0 10] by simp
  have g: "fsub 20 10 = 10" using exact_sub [OF ex, of 20 10] by simp
  show ?thesis
    using one_row_two [OF ex, of 20]
    by (simp add: sortBy_def lineItemsOf_def pushItem_def trim_def isWhiteSpace_def Let_def c a g)
qed

lemma gap0:
  assumes ex: "exactOnIntegers fadd fsub"
  shows "extractStructuredText fadd fsub [fragLeft 0 10, fragRight 10] 792 = ''abcd''"
proof -
  have c: "fsub 0 10 = - 10" using exact_sub [OF ex, of 0 10] by simp
  have a: "fadd 0 10 = 10" using exact_add [OF ex, of 0 10] by simp
  have g: "fsub 10 10 = 0" using exact_sub [OF ex, of 10 10] by simp
  show ?thesis
    using one_row_two [OF ex, of 10]
    by (simp add: sortBy_def lineItemsOf_def pushItem_def trim_def isWhiteSpace_def Let_def c a g)
qed

text \<open>
  C5, as amended. For two adjacent fragments of a row, the previous one at \<open>x \<ge> 0\<close>, let
  the gap be what the program computes in doubles: the rounded difference of the next
  fragment's \<open>x\<close> and the rounded sum of the previous fragment's \<open>x\<close> and its effective
  width (its width, or 5 times the length of its text when the width is 0). Whatever the
  two rounded operations are, the line builder pushes, between what it pushed up to the
  previous fragment and what it pushes from the next one on, no separator when that gap is
  at most 2, one space when it is above 2 and at most 15, and " | " when it is above 15: none
  at 0, a space at 10, " | " at 16. Under every arithmetic that is exact on integers, as that
  of the doubles is, a fragment of width 10 at \<open>x = 0\<close> and a fragment at \<open>x = 26\<close>, 20
  or 10 on one row give "ab | cd" (gap 16), "ab cd" (gap 10) and "abcd" (gap 0).
\<close>

theorem separator_by_gap:
  "(0 \<le> it_x p \<longrightarrow>
      lineItemsOf fadd fsub (pre @ p # n # post) =
        lineItemsOf fadd fsub (pre @ [p]) @
        gapSeparator (fsub (it_x n) (fadd (it_x p) (effectiveWidth p))) @
        lineItemsOf fadd fsub (n # post))
   \<and> gapSeparator 0 = [] \<and> gapSeparator 10 = ['' ''] \<and> gapSeparator 16 = ['' | '']
   \<and> (exactOnIntegers fadd fsub \<longrightarrow>
        extractStructuredText fadd fsub [fragLeft 0 10, fragRight 26] 792 = ''ab | cd''
        \<and> extractStructuredText fadd fsub [fragLeft 0 10, fragRight 20] 792 = ''ab cd''
        \<and> extractStructuredText fadd fsub [fragLeft 0 10, fragRight 10] 792 = ''abcd'')"
proof -
  have "gapSeparator 0 = [] \<and> gapSeparator 10 = ['' ''] \<and> gapSeparator 16 = ['' | '']"
    by (simp add: gapSeparator_def)
  then show ?thesis
    using lineItemsOf_adjacent [of p fadd fsub pre n post] gap16 gap10 gap0 by blast
qed

theorem separator_by_gap_witness:
  "lineItemsOf (+) (-)
     [\<lparr>it_x = 0, it_text = ''ab'', it_width = 10\<rparr>,
      \<lparr>it_x = 26, it_text = ''cd'', it_width = 10\<rparr>,
      \<lparr>it_x = 46, it_text = ''ef'', it_width = 0\<rparr>] =
     [''ab'', '' | '', ''cd'', '' '', ''ef'']
   \<and> exactOnIntegers (+) (-)
   \<and> extractStructuredText (+) (-) [fragLeft 0 10, fragRight 26] 792 = ''ab | cd''
   \<and> extractStructuredText (+) (-) [fragLeft 0 10, fragRight 20] 792 = ''ab cd''
   \<and> extractStructuredText (+) (-) [fragLeft 0 10, fragRight 10] 792 = ''abcd''"
proof -
  let ?p = "\<lparr>it_x = 0, it_text = ''ab'', it_width = 10\<rparr>"
  let ?n = "\<lparr>it_x = 26, it_text = ''cd'', it_width = 10\<rparr>"
  let ?e = "\<lparr>it_x = 46, it_text = ''ef'', it_width = 0\<rparr>"
  have h: "0 \<le> it_x ?p" by simp
  have ex: "exactOnIntegers (+) (-)" by (simp add: exactOnIntegers_def)
  note t = separator_by_gap [of ?p "(+)" "(-)" "[]" ?n "[?e]"]
  from t h
  have "lineItemsOf (+) (-) ([] @ ?p # ?n # [?e]) =
        lineItemsOf (+) (-) ([] @ [?p]) @
        gapSeparator (it_x ?n - (it_x ?p + effectiveWidth ?p)) @
        lineItemsOf (+) (-) (?n # [?e])"
    by blast
  then have a: "lineItemsOf (+) (-) [?p, ?n, ?e] = [''ab'', '' | '', ''cd'', '' '', ''ef'']"
    by (simp add: lineItemsOf_def pushItem_def gapSeparator_def effectiveWidth_def Let_def)
  from t ex
  have b: "extractStructuredText (+) (-) [fragLeft 0 10, fragRight 26] 792 = ''ab | cd''
        \<and> extractStructuredText (+) (-) [fragLeft 0 10, fragRight 20] 792 = ''ab cd''
        \<and> extractStructuredText (+) (-) [fragLeft 0 10, fragRight 10] 792 = ''abcd''"
    by blast
  from a ex b show ?thesis by blast
qed

text \<open>
  The claim C5 as stated, with the gap taken from the fragment's own width and for every
  previous fragment, fails twice. A previous fragment "ab" at \<open>x = 0\<close> of width 0 and a next
  one at \<open>x = 16\<close> have gap 16, and the output has a single space, since the builder
  takes 10 for the width. A previous fragment at \<open>x = - 30\<close> of width 10 and a next one at
  \<open>x = 0\<close> have gap 20, and the output has no separator, since the builder reads a
  negative \<open>lastX\<close> as "no previous fragment".
\<close>

theorem no_separator_despite_gap:
  "extractStructuredText (+) (-) [fragLeft 0 0, fragRight 16] 792 = ''ab cd''
   \<and> 16 - (0 + 0) > (15::real)
   \<and> extractStructuredText (+) (-) [fragLeft (- 30) 10, fragRight 0] 792 = ''abcd''
   \<and> 0 - (- 30 + 10) > (15::real)"
  unfolding structured_two
  by (simp add: sortBy_def lineItemsOf_def pushItem_def trim_def isWhiteSpace_def Let_def)


lemma roundedSubtraction_le: "roundedSubtraction fsub \<Longrightarrow> fsub a b \<le> 0 \<longleftrightarrow> a \<le> b"
proof -
  assume rsub: "roundedSubtraction fsub"
  then have z: "fsub b b = 0" and nz: "fsub a b = 0 \<Longrightarrow> a = b"
    and mono: "\<And>x y. x \<le> y \<Longrightarrow> fsub x b \<le> fsub y b"
    unfolding roundedSubtraction_def by blast+
  show ?thesis
  proof
    assume le: "fsub a b \<le> 0"
    show "a \<le> b"
    proof (rule ccontr)
      assume "\<not> a \<le> b"
      then have "b \<le> a" "a \<noteq> b" by simp_all
      from mono [OF this(1)] z have "0 \<le> fsub a b" by simp
      with le have "fsub a b = 0" by simp
      with nz \<open>a \<noteq> b\<close> show False by simp
    qed
  next
    assume "a \<le> b"
    from mono [OF this] z show "fsub a b \<le> 0" by simp
  qed
qed

lemma roundedSubtraction_exact: "roundedSubtraction (-)"
  by (simp add: roundedSubtraction_def)

lemma insertBy_insort_key:
  "(\<And>a b. cmp a b \<le> 0 \<longleftrightarrow> f a \<le> f b) \<Longrightarrow> insertBy cmp x ys = insort_key f x ys"
  by (induction ys) simp_all

lemma sortBy_sort_key:
  assumes "\<And>a b. cmp a b \<le> 0 \<longleftrightarrow> f a \<le> f b"
  shows "sortBy cmp xs = sort_key f xs"
proof -
  have "insertBy cmp = insort_key f"
    using insertBy_insort_key [of cmp f, OF assms] by (simp add: fun_eq_iff)
  then show ?thesis by (simp add: sortBy_def sort_key_def)
qed

lemma sortBy_rounded:
  "roundedSubtraction fsub \<Longrightarrow> sortBy (\<lambda>a b. fsub (f a) (f b)) xs = sort_key f xs"
  by (rule sortBy_sort_key) (simp add: roundedSubtraction_le)

lemma nearY_refl: "roundedSubtraction fsub \<Longrightarrow> nearY fsub a a"
  by (simp add: roundedSubtraction_def nearY_def rowTolerance_def)

lemma nearY_sym: "roundedSubtraction fsub \<Longrightarrow> nearY fsub a b \<Longrightarrow> nearY fsub b a"
proof -
  assume rsub: "roundedSubtraction fsub" and n: "nearY fsub a b"
  from rsub have "fsub b a = - fsub a b" unfolding roundedSubtraction_def by blast
  with n show ?thesis by (simp add: nearY_def)
qed

lemma nearY_between:
  assumes rsub: "roundedSubtraction fsub" and ab: "a \<le> b" and bc: "b \<le> c" and n: "nearY fsub c a"
  shows "nearY fsub c b"
proof -
  from rsub have z: "fsub c c = 0" and neg: "\<And>x y. fsub y x = - fsub x y"
    and mono: "\<And>x y z. x \<le> y \<Longrightarrow> fsub x z \<le> fsub y z"
    unfolding roundedSubtraction_def by blast+
  from mono [OF bc, of c] z have "fsub b c \<le> 0" by simp
  then have lo: "0 \<le> fsub c b" using neg [of b c] by simp
  from mono [OF ab, of c] have "fsub a c \<le> fsub b c" .
  then have hi: "fsub c b \<le> fsub c a" using neg [of a c] neg [of b c] by simp
  from n have "fsub c a < rowTolerance" by (simp add: nearY_def abs_less_iff)
  with lo hi show ?thesis by (simp add: nearY_def abs_less_iff)
qed

lemma placeItem_fragOf:
  "placeItem fsub h rows item = (case fragOf fsub h item of None \<Rightarrow> rows | Some f \<Rightarrow> addFragment fsub rows f)"
  by (simp add: placeItem_def fragOf_def addFragment_def Let_def split: option.split)

lemma foldl_placeItem:
  "foldl (placeItem fsub h) rows items = foldl (addFragment fsub) rows (fragments fsub h items)"
  by (induction items arbitrary: rows)
    (simp_all add: fragments_def placeItem_fragOf split: option.split)

lemma mset_fragments:
  "mset items' = mset items \<Longrightarrow> mset (fragments fsub h items') = mset (fragments fsub h items)"
proof -
  assume eq: "mset items' = mset items"
  have "mset (fragments fsub h xs) =
        image_mset (the \<circ> fragOf fsub h) (filter_mset (\<lambda>x. fragOf fsub h x \<noteq> None) (mset xs))" for xs
    by (simp add: fragments_def List.map_filter_def)
  with eq show ?thesis by simp
qed

lemma addToRow_new:
  "\<forall>r \<in> set rows. \<not> nearY fsub (row_y r) y \<Longrightarrow>
   addToRow fsub y it rows = rows @ [\<lparr>row_y = y, row_items = [it]\<rparr>]"
  by (induction rows) (simp_all add: nearY_def)

lemma addToRow_found:
  assumes "distinct (map row_y rows)"
    and "\<forall>r \<in> set rows. \<forall>s \<in> set rows. nearY fsub (row_y r) y \<and> nearY fsub (row_y s) y \<longrightarrow> row_y r = row_y s"
    and "\<exists>r \<in> set rows. nearY fsub (row_y r) y"
  shows "addToRow fsub y it rows =
           map (\<lambda>r. if nearY fsub (row_y r) y then r\<lparr>row_items := row_items r @ [it]\<rparr> else r) rows"
  using assms
proof (induction rows)
  case Nil
  then show ?case by simp
next
  case (Cons r rs)
  show ?case
  proof (cases "nearY fsub (row_y r) y")
    case True
    have "\<not> nearY fsub (row_y s) y" if "s \<in> set rs" for s
    proof
      assume "nearY fsub (row_y s) y"
      with True that Cons.prems(2) have "row_y r = row_y s" by simp
      with that Cons.prems(1) show False by auto
    qed
    then have "map (\<lambda>r. if nearY fsub (row_y r) y then r\<lparr>row_items := row_items r @ [it]\<rparr> else r) rs = rs"
      by (simp add: map_idI)
    with True show ?thesis by (simp add: nearY_def)
  next
    case False
    with Cons.prems(3) have ex: "\<exists>r \<in> set rs. nearY fsub (row_y r) y" by simp
    have "addToRow fsub y it rs =
           map (\<lambda>r. if nearY fsub (row_y r) y then r\<lparr>row_items := row_items r @ [it]\<rparr> else r) rs"
      using Cons.IH Cons.prems(1) Cons.prems(2) ex by simp
    with False show ?thesis by (simp add: nearY_def)
  qed
qed

lemma rowsSeparated_trans:
  assumes "rowsSeparated fsub fs" "a \<in> fst ` set fs" "b \<in> fst ` set fs" "c \<in> fst ` set fs"
    "nearY fsub a b" "nearY fsub b c"
  shows "nearY fsub a c"
proof -
  from assms(2) obtain fa where fa: "fa \<in> set fs" "a = fst fa" by auto
  from assms(3) obtain fb where fb: "fb \<in> set fs" "b = fst fb" by auto
  from assms(4) obtain fc where fc: "fc \<in> set fs" "c = fst fc" by auto
  from assms(1) have "\<forall>a \<in> set fs. \<forall>b \<in> set fs. \<forall>c \<in> set fs.
        nearY fsub (fst a) (fst b) \<and> nearY fsub (fst b) (fst c) \<longrightarrow> nearY fsub (fst a) (fst c)"
    unfolding rowsSeparated_def .
  note h = this [rule_format, OF fa(1) fb(1) fc(1)]
  from assms(5,6) fa(2) fb(2) fc(2) show ?thesis by (simp add: h)
qed

lemma rowsSeparated_butlast: "rowsSeparated fsub (fs @ [f]) \<Longrightarrow> rowsSeparated fsub fs"
  unfolding rowsSeparated_def
proof (intro ballI impI)
  fix a b c
  assume h: "\<forall>a\<in>set (fs @ [f]). \<forall>b\<in>set (fs @ [f]). \<forall>c\<in>set (fs @ [f]).
       nearY fsub (fst a) (fst b) \<and> nearY fsub (fst b) (fst c) \<longrightarrow> nearY fsub (fst a) (fst c)"
    and abc: "a \<in> set fs" "b \<in> set fs" "c \<in> set fs"
    and n: "nearY fsub (fst a) (fst b) \<and> nearY fsub (fst b) (fst c)"
  from abc have "a \<in> set (fs @ [f])" "b \<in> set (fs @ [f])" "c \<in> set (fs @ [f])" by simp_all
  with h n show "nearY fsub (fst a) (fst c)" by blast
qed


lemma clustered_Nil: "clustered fsub [] []"
  by (simp add: clustered_def)

lemma filter_snoc_near:
  "map snd (filter (\<lambda>f. nearY fsub y (fst f)) (fs @ [f])) =
     map snd (filter (\<lambda>f. nearY fsub y (fst f)) fs) @ (if nearY fsub y (fst f) then [snd f] else [])"
  by simp

lemma cluster_step:
  assumes rsub: "roundedSubtraction fsub" and sep: "rowsSeparated fsub (fs @ [f])" and inv: "clustered fsub fs rows"
  shows "clustered fsub (fs @ [f]) (addFragment fsub rows f)"
proof -
  let ?y = "fst f" and ?it = "snd f"
  let ?Y = "fst ` set (fs @ [f])"
  from inv have d: "distinct (map row_y rows)"
    and yin: "\<And>r. r \<in> set rows \<Longrightarrow> row_y r \<in> fst ` set fs"
    and apart: "\<And>r s. r \<in> set rows \<Longrightarrow> s \<in> set rows \<Longrightarrow> nearY fsub (row_y r) (row_y s) \<Longrightarrow> row_y r = row_y s"
    and items: "\<And>r. r \<in> set rows \<Longrightarrow> row_items r = map snd (filter (\<lambda>f. nearY fsub (row_y r) (fst f)) fs)"
    and cover: "\<And>g. g \<in> set fs \<Longrightarrow> \<exists>r \<in> set rows. nearY fsub (row_y r) (fst g)"
    unfolding clustered_def by blast+
  have yin': "row_y r \<in> ?Y" if "r \<in> set rows" for r using yin [OF that] by auto
  have y_in: "?y \<in> ?Y" by simp
  note tr = rowsSeparated_trans [OF sep]
  show ?thesis
  proof (cases "\<exists>r \<in> set rows. nearY fsub (row_y r) ?y")
    case True
    have uniq: "\<forall>r \<in> set rows. \<forall>s \<in> set rows. nearY fsub (row_y r) ?y \<and> nearY fsub (row_y s) ?y \<longrightarrow> row_y r = row_y s"
    proof (intro ballI impI)
      fix r s assume rs: "r \<in> set rows" "s \<in> set rows" and n: "nearY fsub (row_y r) ?y \<and> nearY fsub (row_y s) ?y"
      from n have "nearY fsub (row_y r) ?y" "nearY fsub ?y (row_y s)" by (simp_all add: nearY_sym [OF rsub])
      then have "nearY fsub (row_y r) (row_y s)"
        using tr [OF yin' [OF rs(1)] y_in yin' [OF rs(2)]] by simp
      then show "row_y r = row_y s" using apart rs by simp
    qed
    let ?upd = "\<lambda>r. if nearY fsub (row_y r) ?y then r\<lparr>row_items := row_items r @ [?it]\<rparr> else r"
    have new: "addFragment fsub rows f = map ?upd rows"
      unfolding addFragment_def by (rule addToRow_found [OF d uniq True])
    have mapy: "map row_y (map ?upd rows) = map row_y rows" by (simp add: comp_def)
    have c1: "distinct (map row_y (map ?upd rows))" using d by (simp only: mapy)
    have pre: "\<exists>r \<in> set rows. row_y r' = row_y r" if "r' \<in> set (map ?upd rows)" for r'
    proof -
      from that obtain r where "r \<in> set rows" "r' = ?upd r" by auto
      then have "r \<in> set rows" "row_y r' = row_y r" by simp_all
      then show ?thesis by blast
    qed
    have c2: "\<forall>r \<in> set (map ?upd rows). row_y r \<in> ?Y"
    proof
      fix r' assume "r' \<in> set (map ?upd rows)"
      from pre [OF this] obtain r where r: "r \<in> set rows" "row_y r' = row_y r" by blast
      from yin' [OF r(1)] show "row_y r' \<in> ?Y" by (simp only: r(2))
    qed
    have c3: "\<forall>r \<in> set (map ?upd rows). \<forall>s \<in> set (map ?upd rows).
        nearY fsub (row_y r) (row_y s) \<longrightarrow> row_y r = row_y s"
    proof (intro ballI impI)
      fix r' s' assume "r' \<in> set (map ?upd rows)" "s' \<in> set (map ?upd rows)"
        and n: "nearY fsub (row_y r') (row_y s')"
      then obtain r s where rs: "r \<in> set rows" "row_y r' = row_y r" "s \<in> set rows" "row_y s' = row_y s"
        using pre by blast
      from n have "nearY fsub (row_y r) (row_y s)" by (simp only: rs(2) rs(4))
      from apart [OF rs(1) rs(3) this] show "row_y r' = row_y s'" by (simp only: rs(2) rs(4))
    qed
    have c4: "\<forall>r \<in> set (map ?upd rows).
        row_items r = map snd (filter (\<lambda>g. nearY fsub (row_y r) (fst g)) (fs @ [f]))"
    proof
      fix r' assume "r' \<in> set (map ?upd rows)"
      then obtain r where r: "r \<in> set rows" "r' = ?upd r" by auto
      show "row_items r' = map snd (filter (\<lambda>g. nearY fsub (row_y r') (fst g)) (fs @ [f]))"
        using r items [OF r(1)] by (simp add: filter_snoc_near)
    qed
    have c5: "\<forall>g \<in> set (fs @ [f]). \<exists>r \<in> set (map ?upd rows). nearY fsub (row_y r) (fst g)"
    proof
      fix g assume "g \<in> set (fs @ [f])"
      then consider "g \<in> set fs" | "g = f" by auto
      then have "\<exists>r \<in> set rows. nearY fsub (row_y r) (fst g)"
      proof cases
        case 1
        then show ?thesis by (rule cover)
      next
        case 2
        with True show ?thesis by simp
      qed
      then obtain r where "r \<in> set rows" "nearY fsub (row_y r) (fst g)" by blast
      then have "?upd r \<in> set (map ?upd rows)" "nearY fsub (row_y (?upd r)) (fst g)" by simp_all
      then show "\<exists>r \<in> set (map ?upd rows). nearY fsub (row_y r) (fst g)" by blast
    qed
    from c1 c2 c3 c4 c5 show ?thesis unfolding clustered_def new by blast
  next
    case False
    then have none: "\<forall>r \<in> set rows. \<not> nearY fsub (row_y r) ?y" by simp
    let ?new = "\<lparr>row_y = ?y, row_items = [?it]\<rparr>"
    have new: "addFragment fsub rows f = rows @ [?new]"
      unfolding addFragment_def by (rule addToRow_new [OF none])
    have ynot: "?y \<notin> row_y ` set rows"
    proof
      assume "?y \<in> row_y ` set rows"
      then obtain r where "r \<in> set rows" "row_y r = ?y" by auto
      with none nearY_refl [OF rsub, of ?y] show False by auto
    qed
    have c1: "distinct (map row_y (rows @ [?new]))" using d ynot by simp
    have c2: "\<forall>r \<in> set (rows @ [?new]). row_y r \<in> ?Y"
    proof
      fix r assume "r \<in> set (rows @ [?new])"
      then consider "r \<in> set rows" | "r = ?new" by auto
      then show "row_y r \<in> ?Y"
      proof cases
        case 1
        then show ?thesis by (rule yin')
      next
        case 2
        then show ?thesis by simp
      qed
    qed
    have c3: "\<forall>r \<in> set (rows @ [?new]). \<forall>s \<in> set (rows @ [?new]).
        nearY fsub (row_y r) (row_y s) \<longrightarrow> row_y r = row_y s"
      using apart none by (auto dest: nearY_sym [OF rsub])
    have old_far: "\<not> nearY fsub ?y (fst g)" if g: "g \<in> set fs" for g
    proof
      assume n: "nearY fsub ?y (fst g)"
      from cover [OF g] obtain r where r: "r \<in> set rows" "nearY fsub (row_y r) (fst g)" by blast
      have gY: "fst g \<in> ?Y" using g by auto
      from r(2) n have "nearY fsub (row_y r) ?y"
        using tr [OF yin' [OF r(1)] gY y_in] by (simp add: nearY_sym [OF rsub])
      with none r(1) show False by simp
    qed
    have c4: "\<forall>r \<in> set (rows @ [?new]).
        row_items r = map snd (filter (\<lambda>g. nearY fsub (row_y r) (fst g)) (fs @ [f]))"
    proof
      fix r assume "r \<in> set (rows @ [?new])"
      then consider "r \<in> set rows" | "r = ?new" by auto
      then show "row_items r = map snd (filter (\<lambda>g. nearY fsub (row_y r) (fst g)) (fs @ [f]))"
      proof cases
        case 1
        with none items [OF 1] show ?thesis by (simp add: filter_snoc_near)
      next
        case 2
        have "filter (\<lambda>g. nearY fsub ?y (fst g)) fs = []"
          using old_far by (simp add: filter_empty_conv)
        with 2 show ?thesis by (simp add: nearY_refl [OF rsub])
      qed
    qed
    have c5: "\<forall>g \<in> set (fs @ [f]). \<exists>r \<in> set (rows @ [?new]). nearY fsub (row_y r) (fst g)"
    proof
      fix g assume "g \<in> set (fs @ [f])"
      then consider "g \<in> set fs" | "g = f" by auto
      then show "\<exists>r \<in> set (rows @ [?new]). nearY fsub (row_y r) (fst g)"
      proof cases
        case 1
        from cover [OF 1] show ?thesis by auto
      next
        case 2
        then show ?thesis by (simp add: nearY_refl [OF rsub])
      qed
    qed
    from c1 c2 c3 c4 c5 show ?thesis unfolding clustered_def new by blast
  qed
qed

lemma cluster_clustered:
  assumes rsub: "roundedSubtraction fsub"
  shows "rowsSeparated fsub fs \<Longrightarrow> clustered fsub fs (foldl (addFragment fsub) [] fs)"
proof (induction fs rule: rev_induct)
  case Nil
  then show ?case by (simp add: clustered_Nil)
next
  case (snoc f fs)
  from snoc.prems have "rowsSeparated fsub fs" by (rule rowsSeparated_butlast)
  then have "clustered fsub fs (foldl (addFragment fsub) [] fs)" by (rule snoc.IH)
  from cluster_step [OF rsub snoc.prems this] show ?case by simp
qed


lemma rowClassMin_props:
  assumes rsub: "roundedSubtraction fsub" and "y \<in> fst ` set fs"
  shows "rowClassMin fsub fs y \<in> fst ` set fs" and "nearY fsub y (rowClassMin fsub fs y)" and "rowClassMin fsub fs y \<le> y"
proof -
  let ?S = "{z \<in> fst ` set fs. nearY fsub y z}"
  have fin: "finite ?S" by simp
  have yS: "y \<in> ?S" using assms(2) by (simp add: nearY_refl [OF rsub])
  then have ne: "?S \<noteq> {}" by blast
  from Min_in [OF fin ne] have "rowClassMin fsub fs y \<in> ?S" by (simp add: rowClassMin_def)
  then show "rowClassMin fsub fs y \<in> fst ` set fs" and "nearY fsub y (rowClassMin fsub fs y)" by simp_all
  from Min_le [OF fin yS] show "rowClassMin fsub fs y \<le> y" by (simp add: rowClassMin_def)
qed

lemma rowClassMin_near_eq:
  assumes rsub: "roundedSubtraction fsub" and sep: "rowsSeparated fsub fs" and y: "y \<in> fst ` set fs" and y': "y' \<in> fst ` set fs"
    and n: "nearY fsub y y'"
  shows "rowClassMin fsub fs y = rowClassMin fsub fs y'"
proof -
  have "{z \<in> fst ` set fs. nearY fsub y z} = {z \<in> fst ` set fs. nearY fsub y' z}"
  proof (intro set_eqI iffI)
    fix z assume "z \<in> {z \<in> fst ` set fs. nearY fsub y z}"
    then have z: "z \<in> fst ` set fs" "nearY fsub y z" by simp_all
    from rowsSeparated_trans [OF sep y' y z(1) nearY_sym [OF rsub n] z(2)]
    show "z \<in> {z \<in> fst ` set fs. nearY fsub y' z}" using z(1) by simp
  next
    fix z assume "z \<in> {z \<in> fst ` set fs. nearY fsub y' z}"
    then have z: "z \<in> fst ` set fs" "nearY fsub y' z" by simp_all
    from rowsSeparated_trans [OF sep y y' z(1) n z(2)]
    show "z \<in> {z \<in> fst ` set fs. nearY fsub y z}" using z(1) by simp
  qed
  then show ?thesis by (simp add: rowClassMin_def)
qed

lemma rowClassMin_eq_near:
  assumes rsub: "roundedSubtraction fsub" and sep: "rowsSeparated fsub fs" and y: "y \<in> fst ` set fs" and y': "y' \<in> fst ` set fs"
    and eq: "rowClassMin fsub fs y = rowClassMin fsub fs y'"
  shows "nearY fsub y y'"
proof -
  from rowClassMin_props [OF rsub y] have a: "rowClassMin fsub fs y \<in> fst ` set fs" "nearY fsub y (rowClassMin fsub fs y)"
    by simp_all
  from rowClassMin_props [OF rsub y'] have "nearY fsub y' (rowClassMin fsub fs y')" by simp
  then have b: "nearY fsub (rowClassMin fsub fs y) y'" using eq by (simp add: nearY_sym [OF rsub])
  from rowsSeparated_trans [OF sep y a(1) y' a(2) b] show ?thesis .
qed

lemma rowClassMin_mono:
  assumes rsub: "roundedSubtraction fsub" and sep: "rowsSeparated fsub fs"
    and y: "y \<in> fst ` set fs" and y': "y' \<in> fst ` set fs" and le: "y \<le> y'"
  shows "rowClassMin fsub fs y \<le> rowClassMin fsub fs y'"
proof (cases "nearY fsub y y'")
  case True
  from rowClassMin_near_eq [OF rsub sep y y' True] show ?thesis by simp
next
  case False
  from rowClassMin_props [OF rsub y'] have n: "nearY fsub y' (rowClassMin fsub fs y')" by simp
  have "y \<le> rowClassMin fsub fs y'"
  proof (rule ccontr)
    assume "\<not> y \<le> rowClassMin fsub fs y'"
    then have "rowClassMin fsub fs y' \<le> y" by simp
    from nearY_between [OF rsub this le n] have "nearY fsub y' y" .
    from nearY_sym [OF rsub this] False show False by simp
  qed
  moreover from rowClassMin_props [OF rsub y] have "rowClassMin fsub fs y \<le> y" by simp
  ultimately show ?thesis by simp
qed

lemma rowClassMin_cong: "set fs' = set fs \<Longrightarrow> rowClassMin fsub fs' = rowClassMin fsub fs"
  by (simp add: rowClassMin_def fun_eq_iff)

lemma sorted_map_mono:
  "sorted (map f xs) \<Longrightarrow> (\<forall>a \<in> set xs. \<forall>b \<in> set xs. f a \<le> f b \<longrightarrow> g a \<le> g b) \<Longrightarrow>
   sorted (map g xs)"
  by (induction xs) auto

lemma finalPairs_sorted:
  assumes rsub: "roundedSubtraction fsub" and sep: "rowsSeparated fsub fs" and inv: "clustered fsub fs rows"
  shows "sorted (map fst (finalPairs fsub fs rows))" and "distinct (map fst (finalPairs fsub fs rows))"
proof -
  from inv have d: "distinct (map row_y rows)"
    and yin: "\<And>r. r \<in> set rows \<Longrightarrow> row_y r \<in> fst ` set fs"
    and apart: "\<And>r s. r \<in> set rows \<Longrightarrow> s \<in> set rows \<Longrightarrow> nearY fsub (row_y r) (row_y s) \<Longrightarrow> row_y r = row_y s"
    unfolding clustered_def by blast+
  let ?g = "\<lambda>r. rowClassMin fsub fs (row_y r)"
  have m: "map fst (finalPairs fsub fs rows) = map ?g (sort_key row_y rows)"
    by (simp add: finalPairs_def comp_def)
  have "sorted (map row_y (sort_key row_y rows))" by simp
  moreover have "\<forall>a \<in> set (sort_key row_y rows). \<forall>b \<in> set (sort_key row_y rows).
      row_y a \<le> row_y b \<longrightarrow> ?g a \<le> ?g b"
    using rowClassMin_mono [OF rsub sep] yin by simp
  ultimately have "sorted (map ?g (sort_key row_y rows))" by (rule sorted_map_mono)
  then show "sorted (map fst (finalPairs fsub fs rows))" by (simp only: m)
  from d have dr: "distinct rows" and inj: "inj_on row_y (set rows)" by (simp_all add: distinct_map)
  have "inj_on ?g (set rows)"
  proof (rule inj_onI)
    fix r s assume rs: "r \<in> set rows" "s \<in> set rows" and eq: "?g r = ?g s"
    from rowClassMin_eq_near [OF rsub sep yin [OF rs(1)] yin [OF rs(2)] eq]
    have "row_y r = row_y s" using apart rs by simp
    with inj rs show "r = s" by (simp add: inj_on_def)
  qed
  with dr have "distinct (map ?g (sort_key row_y rows))" by (simp add: distinct_map)
  then show "distinct (map fst (finalPairs fsub fs rows))" by (simp only: m)
qed

lemma finalPairs_subset:
  assumes rsub: "roundedSubtraction fsub" and ms: "mset fs' = mset fs" and sep: "rowsSeparated fsub fs" and sx: "sameXSameItem fsub fs"
    and inv: "clustered fsub fs rows" and inv': "clustered fsub fs' rows'"
  shows "set (finalPairs fsub fs rows) \<subseteq> set (finalPairs fsub fs' rows')"
proof
  fix p assume "p \<in> set (finalPairs fsub fs rows)"
  then obtain r where r: "r \<in> set rows"
    and p: "p = (rowClassMin fsub fs (row_y r), sort_key it_x (row_items r))"
    by (auto simp: finalPairs_def)
  from ms have st: "set fs' = set fs" by (rule mset_eq_setD)
  from inv r have ry: "row_y r \<in> fst ` set fs"
    and ri: "row_items r = map snd (filter (\<lambda>f. nearY fsub (row_y r) (fst f)) fs)"
    unfolding clustered_def by blast+
  from ry obtain f where f: "f \<in> set fs" "fst f = row_y r" by auto
  with st have "f \<in> set fs'" by simp
  with inv' obtain r' where r': "r' \<in> set rows'" and n: "nearY fsub (row_y r') (fst f)"
    unfolding clustered_def by blast
  from n f(2) have n': "nearY fsub (row_y r') (row_y r)" by simp
  from inv' r' st have ry': "row_y r' \<in> fst ` set fs"
    and ri': "row_items r' = map snd (filter (\<lambda>f. nearY fsub (row_y r') (fst f)) fs')"
    unfolding clustered_def by blast+
  have key: "rowClassMin fsub fs' (row_y r') = rowClassMin fsub fs (row_y r)"
    using rowClassMin_near_eq [OF rsub sep ry' ry n'] rowClassMin_cong [OF st] by simp
  have agree: "nearY fsub (row_y r) (fst g) \<longleftrightarrow> nearY fsub (row_y r') (fst g)" if g: "g \<in> set fs" for g
  proof
    assume "nearY fsub (row_y r) (fst g)"
    from rowsSeparated_trans [OF sep ry' ry _ n' this] g show "nearY fsub (row_y r') (fst g)" by simp
  next
    assume "nearY fsub (row_y r') (fst g)"
    from rowsSeparated_trans [OF sep ry ry' _ nearY_sym [OF rsub n'] this] g
    show "nearY fsub (row_y r) (fst g)" by simp
  qed
  have "mset (row_items r) = image_mset snd (filter_mset (\<lambda>f. nearY fsub (row_y r) (fst f)) (mset fs))"
    by (simp add: ri)
  also have "\<dots> = image_mset snd (filter_mset (\<lambda>f. nearY fsub (row_y r') (fst f)) (mset fs))"
    using agree by (intro arg_cong [where f = "image_mset snd"] filter_mset_cong) simp_all
  also have "\<dots> = mset (row_items r')" by (simp add: ri' ms)
  finally have mi: "mset (row_items r) = mset (row_items r')" .
  have inj: "inj_on it_x (set (row_items r))"
  proof (rule inj_onI)
    fix a b assume "a \<in> set (row_items r)" "b \<in> set (row_items r)" and eq: "it_x a = it_x b"
    then obtain fa fb where fa: "fa \<in> set fs" "nearY fsub (row_y r) (fst fa)" "a = snd fa"
      and fb: "fb \<in> set fs" "nearY fsub (row_y r) (fst fb)" "b = snd fb"
      by (auto simp: ri)
    have "fst fa \<in> fst ` set fs" "fst fb \<in> fst ` set fs" using fa(1) fb(1) by simp_all
    from rowsSeparated_trans [OF sep this(1) ry this(2) nearY_sym [OF rsub fa(2)] fb(2)]
    have "nearY fsub (fst fa) (fst fb)" .
    with sx fa(1) fb(1) eq fa(3) fb(3) show "a = b" unfolding sameXSameItem_def by blast
  qed
  have "sort_key it_x (row_items r) = sort_key it_x (row_items r')"
    by (rule sort_key_inj_key_eq [OF _ inj]) (simp_all add: mi)
  with key p have "p = (rowClassMin fsub fs' (row_y r'), sort_key it_x (row_items r'))" by simp
  with r' show "p \<in> set (finalPairs fsub fs' rows')" by (auto simp: finalPairs_def)
qed

lemma rowsSeparated_set: "set fs' = set fs \<Longrightarrow> rowsSeparated fsub fs' = rowsSeparated fsub fs"
  by (simp add: rowsSeparated_def)

lemma sameXSameItem_set: "set fs' = set fs \<Longrightarrow> sameXSameItem fsub fs' = sameXSameItem fsub fs"
  by (simp add: sameXSameItem_def)

lemma finalPairs_permutation:
  assumes rsub: "roundedSubtraction fsub" and ms: "mset fs' = mset fs" and sep: "rowsSeparated fsub fs" and sx: "sameXSameItem fsub fs"
  shows "finalPairs fsub fs' (foldl (addFragment fsub) [] fs') = finalPairs fsub fs (foldl (addFragment fsub) [] fs)"
proof -
  from ms have st: "set fs' = set fs" by (rule mset_eq_setD)
  from sep have sep': "rowsSeparated fsub fs'" by (simp only: rowsSeparated_set [OF st])
  from sx have sx': "sameXSameItem fsub fs'" by (simp only: sameXSameItem_set [OF st])
  let ?G = "finalPairs fsub fs (foldl (addFragment fsub) [] fs)" and ?G' = "finalPairs fsub fs' (foldl (addFragment fsub) [] fs')"
  note inv = cluster_clustered [OF rsub sep] and inv' = cluster_clustered [OF rsub sep']
  have "set ?G \<subseteq> set ?G'" by (rule finalPairs_subset [OF rsub ms sep sx inv inv'])
  moreover have "set ?G' \<subseteq> set ?G" by (rule finalPairs_subset [OF rsub ms [symmetric] sep' sx' inv' inv])
  ultimately have eq: "set ?G' = set ?G" by blast
  have "inj_on fst (set ?G)" using finalPairs_sorted(2) [OF rsub sep inv] by (simp add: distinct_map)
  then have "inj_on fst (set ?G' \<union> set ?G)" by (simp add: eq)
  then show ?thesis
    by (rule map_sorted_distinct_set_unique
        [OF _ finalPairs_sorted [OF rsub sep' inv'] finalPairs_sorted [OF rsub sep inv] eq])
qed

lemma buildLine_items:
  "buildLine fadd fsub (r\<lparr>row_items := l\<rparr>) = trim (concat (lineItemsOf fadd fsub l))"
  by (simp add: buildLine_def)

lemma extract_via_finalPairs:
  assumes rsub: "roundedSubtraction fsub"
  shows "extractStructuredText fadd fsub items h =
     (if items = [] then []
      else joinWith [CHR 0x0A]
             (map (\<lambda>line. trim (collapseSpaces line))
                (filter (\<lambda>line. length line > 0)
                   (map (\<lambda>p. trim (concat (lineItemsOf fadd fsub (snd p))))
                      (finalPairs fsub (fragments fsub h items)
                         (foldl (addFragment fsub) [] (fragments fsub h items)))))))"
  by (simp add: extractStructuredText_def Let_def foldl_placeItem finalPairs_def comp_def
      buildLine_items sortBy_rounded [OF rsub])

text \<open>
  C2, as amended. Take the fragments with text of a page, each with the \<open>y\<close> the program
  computes for it in doubles (the rounded difference of the page height and the fragment's
  \<open>translateY\<close>). If the program's tolerance test, the absolute value of the rounded
  difference of two such \<open>y\<close> being below 8, is transitive among them (the rows are
  separated), and if two of them that pass the test and have the same \<open>x\<close> also have the
  same text and width, then the structurer gives the same output string for every
  permutation of the input items. This holds for every rounded sum, and for every rounded
  difference with the properties \<open>roundedSubtraction\<close> of the difference of doubles.
\<close>

theorem structured_text_permutation:
  assumes "roundedSubtraction fsub" and "mset items' = mset items"
    and "rowsSeparated fsub (fragments fsub h items)"
    and "sameXSameItem fsub (fragments fsub h items)"
  shows "extractStructuredText fadd fsub items' h = extractStructuredText fadd fsub items h"
proof -
  have "mset items' = {#} \<longleftrightarrow> mset items = {#}" by (simp only: assms(2))
  then have "items' = [] \<longleftrightarrow> items = []" by simp
  moreover have "finalPairs fsub (fragments fsub h items')
          (foldl (addFragment fsub) [] (fragments fsub h items')) =
        finalPairs fsub (fragments fsub h items)
          (foldl (addFragment fsub) [] (fragments fsub h items))"
    by (rule finalPairs_permutation [OF assms(1) mset_fragments [OF assms(2)] assms(3) assms(4)])
  ultimately show ?thesis by (simp add: extract_via_finalPairs [OF assms(1)])
qed


lemma fragments_AEC:
  "fragments (-) 100 [fragA, fragE, fragC] =
     [(0, \<lparr>it_x = 0, it_text = ''a'', it_width = 5\<rparr>),
      (3, \<lparr>it_x = 10, it_text = ''e'', it_width = 5\<rparr>),
      (14, \<lparr>it_x = 20, it_text = ''c'', it_width = 5\<rparr>)]"
  by (simp add: fragments_def fragOf_def fragA_def fragE_def fragC_def)

lemma structured_AEC:
  "extractStructuredText (+) (-) [fragA, fragE, fragC] 100 = ''a e'' @ [CHR 0x0A] @ ''c''"
  by (simp add: extractStructuredText_def placeItem_def fragA_def fragE_def fragC_def
      rowTolerance_def buildLine_def sortBy_def lineItemsOf_def pushItem_def trim_def
      isWhiteSpace_def Let_def)

text \<open>
  Three fragments on a page of height 100, at \<open>y = 0, 3, 14\<close> and \<open>x = 0, 10, 20\<close>: the
  first two are within tolerance of each other and make one row, the third makes a row of
  its own. In the order c, e, a the first row is opened by e, with reference \<open>y = 3\<close>,
  and holds e before a until the sort; the output is that of the order a, e, c.
\<close>

theorem structured_text_permutation_witness:
  "roundedSubtraction (-)
   \<and> mset [fragC, fragE, fragA] = mset [fragA, fragE, fragC]
   \<and> rowsSeparated (-) (fragments (-) 100 [fragA, fragE, fragC])
   \<and> sameXSameItem (-) (fragments (-) 100 [fragA, fragE, fragC])
   \<and> extractStructuredText (+) (-) [fragC, fragE, fragA] 100 = ''a e'' @ [CHR 0x0A] @ ''c''
   \<and> foldl (placeItem (-) 100) [] [fragC, fragE, fragA] =
       [\<lparr>row_y = 14, row_items = [\<lparr>it_x = 20, it_text = ''c'', it_width = 5\<rparr>]\<rparr>,
        \<lparr>row_y = 3, row_items = [\<lparr>it_x = 10, it_text = ''e'', it_width = 5\<rparr>,
                                  \<lparr>it_x = 0, it_text = ''a'', it_width = 5\<rparr>]\<rparr>]"
proof -
  have h0: "roundedSubtraction (-)" by (simp add: roundedSubtraction_def)
  have h1: "mset [fragC, fragE, fragA] = mset [fragA, fragE, fragC]" by simp
  have h2: "rowsSeparated (-) (fragments (-) 100 [fragA, fragE, fragC])"
    unfolding fragments_AEC by (simp add: rowsSeparated_def nearY_def rowTolerance_def)
  have h3: "sameXSameItem (-) (fragments (-) 100 [fragA, fragE, fragC])"
    unfolding fragments_AEC by (simp add: sameXSameItem_def nearY_def rowTolerance_def)
  from structured_text_permutation [OF h0 h1 h2 h3, of "(+)"]
  have "extractStructuredText (+) (-) [fragC, fragE, fragA] 100 =
        extractStructuredText (+) (-) [fragA, fragE, fragC] 100" .
  then have h4: "extractStructuredText (+) (-) [fragC, fragE, fragA] 100 = ''a e'' @ [CHR 0x0A] @ ''c''"
    by (simp only: structured_AEC)
  have h5: "foldl (placeItem (-) 100) [] [fragC, fragE, fragA] =
       [\<lparr>row_y = 14, row_items = [\<lparr>it_x = 20, it_text = ''c'', it_width = 5\<rparr>]\<rparr>,
        \<lparr>row_y = 3, row_items = [\<lparr>it_x = 10, it_text = ''e'', it_width = 5\<rparr>,
                                  \<lparr>it_x = 0, it_text = ''a'', it_width = 5\<rparr>]\<rparr>]"
    by (simp add: placeItem_def fragA_def fragE_def fragC_def rowTolerance_def)
  from h0 h1 h2 h3 h4 h5 show ?thesis by blast
qed

lemma structured_ABC:
  "extractStructuredText (+) (-) [fragA, fragB, fragC] 100 = ''a b'' @ [CHR 0x0A] @ ''c''"
  by (simp add: extractStructuredText_def placeItem_def fragA_def fragB_def fragC_def
      rowTolerance_def buildLine_def sortBy_def lineItemsOf_def pushItem_def trim_def
      isWhiteSpace_def Let_def)

lemma structured_BAC:
  "extractStructuredText (+) (-) [fragB, fragA, fragC] 100 = ''a b c''"
  by (simp add: extractStructuredText_def placeItem_def fragA_def fragB_def fragC_def
      rowTolerance_def buildLine_def sortBy_def lineItemsOf_def pushItem_def trim_def
      isWhiteSpace_def Let_def)

lemma structured_AD: "extractStructuredText (+) (-) [fragA, fragD] 100 = ''ad''"
  by (simp add: extractStructuredText_def placeItem_def fragA_def fragD_def
      rowTolerance_def buildLine_def sortBy_def lineItemsOf_def pushItem_def trim_def
      isWhiteSpace_def Let_def)

lemma structured_DA: "extractStructuredText (+) (-) [fragD, fragA] 100 = ''da''"
  by (simp add: extractStructuredText_def placeItem_def fragA_def fragD_def
      rowTolerance_def buildLine_def sortBy_def lineItemsOf_def pushItem_def trim_def
      isWhiteSpace_def Let_def)

text \<open>
  The claim C2 as stated, for every set of fragments, fails twice. Three fragments at
  \<open>y = 0, 7, 14\<close> make the rows "a b" and "c" in the order a, b, c, and the single row
  "a b c" in the order b, a, c: a fragment joins the first row whose reference \<open>y\<close>, the
  \<open>y\<close> of the row's first fragment, is within tolerance. Two fragments at the same
  position come out in input order, "ad" or "da", since the sort by \<open>x\<close> is stable.
\<close>

theorem input_order_changes_output:
  "mset [fragB, fragA, fragC] = mset [fragA, fragB, fragC]
   \<and> extractStructuredText (+) (-) [fragA, fragB, fragC] 100 = ''a b'' @ [CHR 0x0A] @ ''c''
   \<and> extractStructuredText (+) (-) [fragB, fragA, fragC] 100 = ''a b c''
   \<and> mset [fragD, fragA] = mset [fragA, fragD]
   \<and> extractStructuredText (+) (-) [fragA, fragD] 100 = ''ad''
   \<and> extractStructuredText (+) (-) [fragD, fragA] 100 = ''da''"
  by (simp add: structured_ABC structured_BAC structured_AD structured_DA)

end
